theory Spec2Isabelle
  imports Complex_Main "HOL-Library.Word"
begin

unbundle bit_operations_syntax

section \<open>Exceptions\<close>

text \<open>
  Every exception of the Python source is a value: its class and the message that
  \<^verbatim>\<open>str(e)\<close> returns. The classes of \<^verbatim>\<open>src/core/errors.py\<close> come first, then
  the built-in and library classes that the modelled code can meet.
\<close>

datatype exn_class =
    WebSocketError | ModelError | AudioError
  | AssertionError | TypeError | ValueError | AttributeError | RuntimeError | StructError
  | WebSocketDisconnect | JSONDecodeError | WaveError | EngineError

datatype exn = Exc exn_class string

fun exn_str :: "exn \<Rightarrow> string" where
  "exn_str (Exc c msg) = msg"

section \<open>Floating-point values of numpy\<close>

text \<open>
  An element of a numpy float array is a real number, an infinity or NaN. The two zeros
  of IEEE 754 are one value here: the modelled code compares, multiplies and divides by
  positive numbers and casts to int16, none of which tells them apart. An array of either
  precision may hold any real number, which is more than numpy allows; the values of
  float32 and float64 are the reals that \<open>fround\<close> returns.
\<close>

datatype fmt = Float32 | Float64

datatype npfloat = Fin real | PInf | NInf | NaN

fun precision :: "fmt \<Rightarrow> nat" where
  \<comment> \<open>the number of significant bits\<close>
  "precision Float32 = 24"
| "precision Float64 = 53"

fun emax :: "fmt \<Rightarrow> nat" where
  \<comment> \<open>the largest exponent\<close>
  "emax Float32 = 127"
| "emax Float64 = 1023"

fun emin :: "fmt \<Rightarrow> nat" where
  \<comment> \<open>the smallest exponent of a normal number is \<open>- emin\<close>\<close>
  "emin Float32 = 126"
| "emin Float64 = 1022"

text \<open>
  The exponent of a positive number \<open>a\<close>: the \<open>e\<close> with \<open>2^e \<le> a < 2^(e+1)\<close>, found by
  halving or doubling, and kept between \<open>- emin\<close> (below it the numbers are subnormal and
  equally spaced) and \<open>emax + 1\<close> (where rounding overflows).
\<close>

fun scale_up :: "nat \<Rightarrow> real \<Rightarrow> int" where
  "scale_up 0 a = 0"
| "scale_up (Suc n) a = (if a < 2 then 0 else 1 + scale_up n (a / 2))"

fun scale_down :: "nat \<Rightarrow> real \<Rightarrow> int" where
  "scale_down 0 a = 0"
| "scale_down (Suc n) a = (if 1 \<le> a then 0 else scale_down n (2 * a) - 1)"

definition binade :: "fmt \<Rightarrow> real \<Rightarrow> int" where
  "binade f a = (if 1 \<le> a then scale_up (emax f + 1) a else scale_down (emin f) a)"

definition quantum :: "fmt \<Rightarrow> real \<Rightarrow> real" where
  \<comment> \<open>the distance between neighbouring floats around \<open>r\<close>\<close>
  "quantum f r = 2 powi (binade f \<bar>r\<bar> - (int (precision f) - 1))"

definition round_half_even :: "real \<Rightarrow> int" where
  \<comment> \<open>the nearest integer, the even one of two that are equally near\<close>
  "round_half_even t =
     (let n = \<lfloor>t\<rfloor>
      in if t - real_of_int n < 1 / 2 then n
         else if 1 / 2 < t - real_of_int n then n + 1
         else if even n then n else n + 1)"

definition fround :: "fmt \<Rightarrow> real \<Rightarrow> npfloat" where
  \<comment> \<open>IEEE 754 rounding of an exact result: to nearest, ties to even, overflow to infinity\<close>
  "fround f r =
     (let y = real_of_int (round_half_even (r / quantum f r)) * quantum f r
      in if 2 ^ (emax f + 1) \<le> \<bar>y\<bar> then (if 0 < r then PInf else NInf) else Fin y)"

definition times_32767 :: "fmt \<Rightarrow> npfloat \<Rightarrow> npfloat" where
  \<comment> \<open>\<^verbatim>\<open>x * 32767\<close> in the precision of the array; an infinity and NaN stay\<close>
  "times_32767 f x = (case x of Fin r \<Rightarrow> fround f (r * 32767) | _ \<Rightarrow> x)"

fun fdiv :: "fmt \<Rightarrow> npfloat \<Rightarrow> npfloat \<Rightarrow> npfloat" where
  \<comment> \<open>\<^verbatim>\<open>x / y\<close> in precision \<open>f\<close>; a zero divisor is the positive zero\<close>
  "fdiv f NaN y = NaN"
| "fdiv f x NaN = NaN"
| "fdiv f (Fin a) (Fin b) =
     (if b \<noteq> 0 then fround f (a / b)
      else if a = 0 then NaN else if 0 < a then PInf else NInf)"
| "fdiv f (Fin a) y = Fin 0"
| "fdiv f PInf (Fin b) = (if 0 \<le> b then PInf else NInf)"
| "fdiv f NInf (Fin b) = (if 0 \<le> b then NInf else PInf)"
| "fdiv f x y = NaN"

fun fless :: "npfloat \<Rightarrow> npfloat \<Rightarrow> bool" where
  \<comment> \<open>\<^verbatim>\<open>x < y\<close>: false whenever NaN is compared\<close>
  "fless NaN y = False"
| "fless x NaN = False"
| "fless (Fin a) (Fin b) = (a < b)"
| "fless x PInf = (x \<noteq> PInf)"
| "fless NInf y = (y \<noteq> NInf)"
| "fless x y = False"

fun np_abs :: "npfloat \<Rightarrow> npfloat" where
  "np_abs (Fin r) = Fin \<bar>r\<bar>"
| "np_abs NInf = PInf"
| "np_abs x = x"

fun np_maximum :: "npfloat \<Rightarrow> npfloat \<Rightarrow> npfloat" where
  \<comment> \<open>the larger of two elements; NaN wins over every number\<close>
  "np_maximum NaN y = NaN"
| "np_maximum x NaN = NaN"
| "np_maximum x y = (if fless x y then y else x)"

definition np_max :: "npfloat list \<Rightarrow> exn + npfloat" where
  \<comment> \<open>\<^verbatim>\<open>a.max()\<close>: the maximum of an empty array raises ValueError\<close>
  "np_max xs =
     (case xs of
        [] \<Rightarrow> Inl (Exc ValueError ''zero-size array to reduction operation maximum which has no identity'')
      | x # rest \<Rightarrow> Inr (foldl np_maximum x rest))"

section \<open>Audio samples and bytes\<close>

text \<open>
  A numpy int16 array is a list of 16-bit words, and \<^verbatim>\<open>bytes\<close> is a list of 8-bit
  words. The arrays that reach the modelled code are one-dimensional: an array of floats
  of either precision, or an array of int16 samples.
\<close>

type_synonym int16 = "16 word"
type_synonym byte = "8 word"

datatype ndarray = Floats fmt "npfloat list" | Int16s "int16 list"

fun len :: "ndarray \<Rightarrow> nat" where
  "len (Floats f xs) = length xs"
| "len (Int16s ws) = length ws"

definition round_toward_zero :: "real \<Rightarrow> int" where
  \<comment> \<open>the float to integer cast drops the fractional part\<close>
  "round_toward_zero x = (if 0 \<le> x then \<lfloor>x\<rfloor> else \<lceil>x\<rceil>)"

text \<open>
  \<^verbatim>\<open>.astype(np.int16)\<close> on one float is the conversion of C. Inside the int32 range
  it gives the truncated value reduced modulo \<open>2^16\<close>. Outside that range, and for an
  infinity or NaN, C leaves the result open; the conversion instruction of x86-64 then
  gives the int32 minimum, whose low 16 bits are 0.
\<close>

definition astype_int16 :: "npfloat \<Rightarrow> int16" where
  "astype_int16 x =
     (case x of
        Fin r \<Rightarrow>
          (if - (2 ^ 31) \<le> round_toward_zero r \<and> round_toward_zero r < 2 ^ 31
           then word_of_int (round_toward_zero r) else 0)
      | _ \<Rightarrow> 0)"

fun to_pcm16 :: "ndarray \<Rightarrow> int16 list" where
  \<comment> \<open>\<^verbatim>\<open>(wav * 32767).astype(np.int16)\<close>; the product of an int16 array stays int16 and wraps\<close>
  "to_pcm16 (Floats f xs) = map (\<lambda>x. astype_int16 (times_32767 f x)) xs"
| "to_pcm16 (Int16s ws) = map (\<lambda>w. w * 32767) ws"

fun astype_float32 :: "ndarray \<Rightarrow> npfloat list" where
  \<comment> \<open>\<^verbatim>\<open>.astype(np.float32)\<close>, skipped for a float32 array; every int16 is a float32\<close>
  "astype_float32 (Floats Float32 xs) = xs"
| "astype_float32 (Floats Float64 xs) = map (\<lambda>x. case x of Fin r \<Rightarrow> fround Float32 r | _ \<Rightarrow> x) xs"
| "astype_float32 (Int16s ws) = map (\<lambda>w. Fin (real_of_int (sint w))) ws"

definition abs16 :: "int16 \<Rightarrow> int16" where
  \<comment> \<open>\<^verbatim>\<open>np.abs\<close> on an int16: the negation wraps, so -32768 stays\<close>
  "abs16 w = (if sint w < 0 then - w else w)"

definition np_max16 :: "int16 list \<Rightarrow> exn + int16" where
  "np_max16 ws =
     (case ws of
        [] \<Rightarrow> Inl (Exc ValueError ''zero-size array to reduction operation maximum which has no identity'')
      | w # rest \<Rightarrow> Inr (foldl (\<lambda>a b. if sint a < sint b then b else a) w rest))"

definition int16_bytes :: "int16 \<Rightarrow> byte list" where
  \<comment> \<open>one int16 sample in little-endian byte order\<close>
  "int16_bytes w = [ucast w, ucast (drop_bit 8 w)]"

definition tobytes :: "int16 list \<Rightarrow> byte list" where
  "tobytes ws = concat (map int16_bytes ws)"

fun frombuffer_pairs :: "byte list \<Rightarrow> int16 list" where
  "frombuffer_pairs (lo # hi # bs) = (ucast lo OR push_bit 8 (ucast hi)) # frombuffer_pairs bs"
| "frombuffer_pairs bs = []"

definition frombuffer :: "byte list \<Rightarrow> exn + int16 list" where
  \<comment> \<open>\<^verbatim>\<open>np.frombuffer(data, dtype=np.int16)\<close>: the size must be a multiple of 2\<close>
  "frombuffer bs =
     (if length bs mod 2 \<noteq> 0
      then Inl (Exc ValueError ''buffer size must be a multiple of element size'')
      else Inr (frombuffer_pairs bs))"

section \<open>The speech model: \<^verbatim>\<open>src/tts/model.py\<close>\<close>

text \<open>
  JSON values as \<^verbatim>\<open>json.loads\<close> returns them; a dict is an association list.
  The handler passes the fields of a message on unchecked, so the text and the voice of a
  synthesis request are JSON values.
\<close>

datatype json =
    JNull | JBool bool | JNum real | JStr string
  | JList "json list" | JDict "(string \<times> json) list"

text \<open>
  The synthesis engine (\<^verbatim>\<open>TTS.api.TTS\<close>) is an external collaborator: a function
  from the arguments of \<^verbatim>\<open>self._model.tts\<close> (text, speaker wav, language, speed) to
  the waveform, or to the detail of the exception it raises. The waveform is taken to be
  a numpy array, as the annotation of \<^verbatim>\<open>generate_speech\<close> says.
\<close>

type_synonym engine = "json \<Rightarrow> json option \<Rightarrow> string option \<Rightarrow> real \<Rightarrow> string + ndarray"

record tts_model =
  model :: "engine option"
  initialized :: bool
  stream_chunk_size :: int

definition ensure_initialized :: "tts_model \<Rightarrow> exn + unit" where
  "ensure_initialized m =
     (if \<not> initialized m then Inl (Exc ModelError ''TTS model not initialized'') else Inr ())"

definition generate_speech ::
  "tts_model \<Rightarrow> json \<Rightarrow> json \<Rightarrow> real \<Rightarrow> string \<Rightarrow> exn + ndarray" where
  "generate_speech m txt voice speed language =
     (case ensure_initialized m of
        Inl e \<Rightarrow> Inl e
      | Inr _ \<Rightarrow>
          (case model m of
             None \<Rightarrow> Inl (Exc AssertionError [])
           | Some tts \<Rightarrow>
               (case (if voice = JStr ''default''
                      then tts txt None None speed
                      else tts txt (Some voice) (Some language) speed) of
                  Inl detail \<Rightarrow> Inl (Exc ModelError ''Speech generation failed'')
                | Inr wav \<Rightarrow> Inr wav)))"

definition py_range :: "int \<Rightarrow> int \<Rightarrow> exn + nat list" where
  \<comment> \<open>\<^verbatim>\<open>range(0, stop, step)\<close> for \<open>stop \<ge> 0\<close>: a zero step raises, a negative one is empty\<close>
  "py_range stop step =
     (if step = 0 then Inl (Exc ValueError ''range() arg 3 must not be zero'')
      else if step < 0 then Inr []
      else Inr (map (\<lambda>k. k * nat step) [0 ..< nat ((stop + step - 1) div step)]))"

definition pad_chunk :: "nat \<Rightarrow> int16 list \<Rightarrow> int16 list" where
  \<comment> \<open>the body of the loop after the slice: a short chunk is padded with zeros\<close>
  "pad_chunk chunk_size chunk =
     (if length chunk < chunk_size
      then chunk @ replicate (chunk_size - length chunk) 0
      else chunk)"

definition speech_chunks :: "nat \<Rightarrow> int16 list \<Rightarrow> nat list \<Rightarrow> int16 list list" where
  \<comment> \<open>the arrays \<^verbatim>\<open>chunk\<close> of the loop, one per index \<open>i\<close>: \<^verbatim>\<open>wav[i:i + chunk_size]\<close>, padded\<close>
  "speech_chunks chunk_size wav idxs =
     map (\<lambda>i. pad_chunk chunk_size (take chunk_size (drop i wav))) idxs"

definition generate_speech_stream ::
  "tts_model \<Rightarrow> json \<Rightarrow> json \<Rightarrow> real \<Rightarrow> string \<Rightarrow> int option \<Rightarrow> exn + byte list list" where
  \<comment> \<open>the chunks that the generator yields, in order, or the exception it raises\<close>
  "generate_speech_stream m txt voice speed language chunk_size =
     (case ensure_initialized m of
        Inl e \<Rightarrow> Inl e
      | Inr _ \<Rightarrow>
          (case model m of
             None \<Rightarrow> Inl (Exc AssertionError [])
           | Some _ \<Rightarrow>
               (let cs = (case chunk_size of
                            None \<Rightarrow> stream_chunk_size m
                          | Some c \<Rightarrow> if c = 0 then stream_chunk_size m else c)
                in case generate_speech m txt voice speed language of
                     Inl e \<Rightarrow> Inl (Exc ModelError ''Speech streaming failed'')
                   | Inr wav \<Rightarrow>
                       (case py_range (int (length (to_pcm16 wav))) cs of
                          Inl e \<Rightarrow> Inl (Exc ModelError ''Speech streaming failed'')
                        | Inr idxs \<Rightarrow>
                            Inr (map tobytes (speech_chunks (nat cs) (to_pcm16 wav) idxs))))))"

text \<open>
  The number of zero samples that bring a waveform of \<open>n\<close> samples up to the next multiple
  of the chunk size.
\<close>

definition padding :: "nat \<Rightarrow> nat \<Rightarrow> nat" where
  "padding chunk_size n = (chunk_size - n mod chunk_size) mod chunk_size"

section \<open>The audio processor: \<^verbatim>\<open>src/tts/audio.py\<close>\<close>

record audio_config =
  sample_rate :: int
  num_channels :: int
  bits_per_sample :: int

definition default_audio_config :: audio_config where
  \<comment> \<open>\<^verbatim>\<open>AudioConfig()\<close> under the default settings: SAMPLE_RATE 24000, NUM_CHANNELS 1\<close>
  "default_audio_config = \<lparr>sample_rate = 24000, num_channels = 1, bits_per_sample = 16\<rparr>"

text \<open>
  The standard library's \<^verbatim>\<open>wave\<close> module is an external collaborator. The bytes of
  a WAVE file are represented by what the module writes into them and reads back: the
  header fields and the data chunk. The writer refuses a channel count below 1, a sample
  width outside 1..4 and a frame rate that is not positive; it packs the header with
  \<^verbatim>\<open>struct.pack\<close>, which refuses a value that does not fit its field: 32 bits for
  the length of the file, the frame rate and the byte rate, 16 bits for the channel count
  and the frame size. The reader refuses a header with no channel or no sample width, and
  derives the number of frames from the size of the data chunk.
\<close>

record wav_file =
  nchannels :: nat
  sampwidth :: nat
  framerate :: int
  frames :: "byte list"

definition wave_write :: "int \<Rightarrow> int \<Rightarrow> int \<Rightarrow> byte list \<Rightarrow> exn + wav_file" where
  \<comment> \<open>\<^verbatim>\<open>setnchannels\<close>, \<^verbatim>\<open>setsampwidth\<close>, \<^verbatim>\<open>setframerate\<close>, \<^verbatim>\<open>writeframes\<close>\<close>
  "wave_write nch width rate data =
     (if nch < 1 then Inl (Exc WaveError ''bad # of channels'')
      else if width < 1 \<or> 4 < width then Inl (Exc WaveError ''bad sample width'')
      else if rate \<le> 0 then Inl (Exc WaveError ''bad frame rate'')
      else if 4294967295 < 36 + int (length data) \<or> 65535 < nch \<or> 4294967295 < rate
              \<or> 4294967295 < nch * rate * width \<or> 65535 < nch * width
      then Inl (Exc StructError ''argument out of range'')
      else Inr \<lparr>nchannels = nat nch, sampwidth = nat width, framerate = rate, frames = data\<rparr>)"

definition wave_read :: "wav_file \<Rightarrow> exn + wav_file" where
  \<comment> \<open>\<^verbatim>\<open>wave.open(bytes_io, 'rb')\<close>\<close>
  "wave_read f =
     (if nchannels f = 0 then Inl (Exc WaveError ''bad # of channels'')
      else if sampwidth f = 0 then Inl (Exc WaveError ''bad sample width'')
      else Inr f)"

definition getnframes :: "wav_file \<Rightarrow> nat" where
  "getnframes f = length (frames f) div (nchannels f * sampwidth f)"

definition readframes :: "wav_file \<Rightarrow> nat \<Rightarrow> byte list" where
  "readframes f n = take (n * (nchannels f * sampwidth f)) (frames f)"

definition array_to_wav_bytes :: "audio_config \<Rightarrow> ndarray \<Rightarrow> exn + wav_file" where
  "array_to_wav_bytes config audio_array =
     (let samples = astype_float32 audio_array
      in case np_max (map np_abs samples) of
           Inl e \<Rightarrow> Inl (Exc AudioError ''Failed to convert array to WAV'')
         | Inr peak \<Rightarrow>
             (let normalized = (if fless (Fin 1) peak
                                then map (\<lambda>x. fdiv Float32 x peak) samples else samples);
                  wav_data = to_pcm16 (Floats Float32 normalized)
              in case wave_write (num_channels config) (bits_per_sample config div 8)
                        (sample_rate config) (tobytes wav_data) of
                   Inl e \<Rightarrow> Inl (Exc AudioError ''Failed to convert array to WAV'')
                 | Inr f \<Rightarrow> Inr f))"

definition wav_bytes_to_array :: "wav_file \<Rightarrow> exn + (ndarray \<times> int)" where
  "wav_bytes_to_array wav_bytes =
     (case wave_read wav_bytes of
        Inl e \<Rightarrow> Inl (Exc AudioError ''Failed to convert WAV to array'')
      | Inr wav_file \<Rightarrow>
          (let rate = framerate wav_file;
               num_frames = getnframes wav_file;
               wav_data = readframes wav_file num_frames
           in case frombuffer wav_data of
                Inl e \<Rightarrow> Inl (Exc AudioError ''Failed to convert WAV to array'')
              | Inr arr \<Rightarrow>
                  Inr (Floats Float32
                         (map (\<lambda>x. fdiv Float32 x (Fin 32767)) (astype_float32 (Int16s arr))),
                       rate)))"

definition normalize_audio :: "ndarray \<Rightarrow> exn + ndarray" where
  \<comment> \<open>the division of an int16 array by an int16 converts both to float64\<close>
  "normalize_audio audio =
     (case audio of
        Floats f xs \<Rightarrow>
          (case np_max (map np_abs xs) of
             Inl e \<Rightarrow> Inl (Exc AudioError ''Audio normalization failed'')
           | Inr max_val \<Rightarrow>
               if fless (Fin 0) max_val
               then Inr (Floats f (map (\<lambda>x. fdiv f x max_val) xs))
               else Inr audio)
      | Int16s ws \<Rightarrow>
          (case np_max16 (map abs16 ws) of
             Inl e \<Rightarrow> Inl (Exc AudioError ''Audio normalization failed'')
           | Inr max_val \<Rightarrow>
               if 0 < sint max_val
               then Inr (Floats Float64
                           (map (\<lambda>x. fdiv Float64 x (Fin (real_of_int (sint max_val))))
                              (map (\<lambda>w. Fin (real_of_int (sint w))) ws)))
               else Inr audio))"

section \<open>Settings: \<^verbatim>\<open>src/core/config.py\<close>\<close>

record settings =
  MAX_CONNECTIONS :: int
  CHUNK_SIZE :: int

definition default_settings :: settings where
  "default_settings = \<lparr>MAX_CONNECTIONS = 100, CHUNK_SIZE = 4096\<rparr>"

text \<open>
  What the code reads from its surroundings and never changes: the settings, the
  singleton speech model, and Python's \<^verbatim>\<open>float\<close> on a string (the value, or
  nothing where it raises ValueError).
\<close>

record env =
  the_settings :: settings
  the_tts_model :: tts_model
  float_of_str :: "string \<Rightarrow> real option"

section \<open>The transport\<close>

text \<open>
  Starlette's WebSocket is an external collaborator. It is modelled by its application
  state and by the frames that \<^verbatim>\<open>send_bytes\<close> and \<^verbatim>\<open>send_json\<close> have handed
  to it, in order. \<^verbatim>\<open>accept\<close> is legal only while connecting, a frame can be sent
  only while connected, and once a close has been sent every further send or close
  raises RuntimeError.
\<close>

datatype ws_state = CONNECTING | CONNECTED | DISCONNECTED

datatype frame = Bytes "byte list" | Json json

record websocket =
  application_state :: ws_state
  outbox :: "frame list"

definition ws_accept :: "websocket \<Rightarrow> exn + websocket" where
  "ws_accept ws =
     (case application_state ws of
        CONNECTING \<Rightarrow> Inr (ws\<lparr>application_state := CONNECTED\<rparr>)
      | CONNECTED \<Rightarrow>
          Inl (Exc RuntimeError ''Expected ASGI message websocket.send or websocket.close'')
      | DISCONNECTED \<Rightarrow>
          Inl (Exc RuntimeError ''Cannot call send once a close message has been sent''))"

definition ws_send :: "frame \<Rightarrow> websocket \<Rightarrow> exn + websocket" where
  "ws_send f ws =
     (case application_state ws of
        CONNECTING \<Rightarrow>
          Inl (Exc RuntimeError ''Expected ASGI message websocket.accept or websocket.close'')
      | CONNECTED \<Rightarrow> Inr (ws\<lparr>outbox := outbox ws @ [f]\<rparr>)
      | DISCONNECTED \<Rightarrow>
          Inl (Exc RuntimeError ''Cannot call send once a close message has been sent''))"

definition ws_close :: "websocket \<Rightarrow> exn + websocket" where
  "ws_close ws =
     (case application_state ws of
        DISCONNECTED \<Rightarrow>
          Inl (Exc RuntimeError ''Cannot call send once a close message has been sent'')
      | _ \<Rightarrow> Inr (ws\<lparr>application_state := DISCONNECTED\<rparr>))"

definition message_frame :: "string \<Rightarrow> string \<Rightarrow> frame" where
  \<comment> \<open>the JSON frame \<^verbatim>\<open>{"type": kind, "message": message}\<close>\<close>
  "message_frame kind message = Json (JDict [(''type'', JStr kind), (''message'', JStr message)])"

definition end_frame :: frame where
  \<comment> \<open>the end-of-stream marker \<^verbatim>\<open>{"type": "end"}\<close>\<close>
  "end_frame = Json (JDict [(''type'', JStr ''end'')])"

section \<open>Objects and the shared state\<close>

text \<open>
  A background task is known by its state only. The keepalive loops run on timers and
  are not executed by this model; closing a stream cancels its ping task.
\<close>

datatype task_state = Running | Cancelled | Finished | Failed exn

text \<open>
  An \<^verbatim>\<open>AudioStream\<close> object. Its transport is a reference into the heap of sockets,
  since the stream and the message handler hold the same WebSocket object. The field
  \<^verbatim>\<open>_stream_task\<close> is never assigned by the source and stays \<open>None\<close>.
\<close>

record audio_stream =
  websocket_ref :: nat
  session_id :: nat
  active :: bool
  ping_task :: "task_state option"
  stream_task :: "task_state option"

text \<open>
  The state that the modules share: the supply of fresh identifiers that stands for
  \<^verbatim>\<open>uuid4\<close>, the WebSocket objects by address, the AudioStream objects by address (a
  stream's address is its session id), the dictionary \<^verbatim>\<open>StreamManager._streams\<close> and
  the dictionary \<^verbatim>\<open>WebSocketManager._active_connections\<close>. A dictionary is an
  association list with distinct keys.
\<close>

record world =
  uuid_counter :: nat
  sockets :: "nat \<Rightarrow> websocket"
  streams :: "nat \<Rightarrow> audio_stream"
  sm_streams :: "(nat \<times> nat) list"
  active_connections :: "(nat \<times> nat) list"

definition dict_set :: "'k \<Rightarrow> 'v \<Rightarrow> ('k \<times> 'v) list \<Rightarrow> ('k \<times> 'v) list" where
  \<comment> \<open>\<^verbatim>\<open>d[k] = v\<close>: replaces the entry of an existing key, adds one otherwise\<close>
  "dict_set k v d =
     (if k \<in> fst ` set d then map (\<lambda>(k', v'). if k' = k then (k, v) else (k', v')) d
      else d @ [(k, v)])"

definition dict_del :: "'k \<Rightarrow> ('k \<times> 'v) list \<Rightarrow> ('k \<times> 'v) list" where
  "dict_del k d = filter (\<lambda>(k', v'). k' \<noteq> k) d"

definition socket_of :: "world \<Rightarrow> nat \<Rightarrow> websocket" where
  \<comment> \<open>the WebSocket object of the stream at address \<open>a\<close>\<close>
  "socket_of w a = sockets w (websocket_ref (streams w a))"

definition set_socket :: "nat \<Rightarrow> websocket \<Rightarrow> world \<Rightarrow> world" where
  "set_socket r ws w = w\<lparr>sockets := (sockets w)(r := ws)\<rparr>"

definition set_stream :: "nat \<Rightarrow> audio_stream \<Rightarrow> world \<Rightarrow> world" where
  "set_stream a s w = w\<lparr>streams := (streams w)(a := s)\<rparr>"

section \<open>The audio stream: \<^verbatim>\<open>src/tts/stream.py\<close>\<close>

text \<open>
  A method that can raise returns the exception or the result, together with the state
  as the call leaves it: what was sent before an exception stays sent.
\<close>

definition new_audio_stream :: "nat \<Rightarrow> world \<Rightarrow> nat \<times> world" where
  \<comment> \<open>\<^verbatim>\<open>AudioStream(websocket)\<close>: a fresh session id, active, no tasks\<close>
  "new_audio_stream ws_ref w =
     (let sid = uuid_counter w
      in (sid, set_stream sid
                 \<lparr>websocket_ref = ws_ref, session_id = sid, active = True,
                  ping_task = None, stream_task = None\<rparr>
                 (w\<lparr>uuid_counter := Suc sid\<rparr>)))"

definition stream_initialize :: "nat \<Rightarrow> world \<Rightarrow> (exn + unit) \<times> world" where
  \<comment> \<open>\<^verbatim>\<open>AudioStream.initialize\<close>\<close>
  "stream_initialize a w =
     (case ws_accept (socket_of w a) of
        Inl e \<Rightarrow> (Inl (Exc WebSocketError ''Failed to initialize WebSocket connection''), w)
      | Inr ws \<Rightarrow>
          (Inr (), set_stream a ((streams w a)\<lparr>ping_task := Some Running\<rparr>)
                     (set_socket (websocket_ref (streams w a)) ws w)))"

definition cancel_task :: "task_state option \<Rightarrow> task_state option" where
  \<comment> \<open>\<^verbatim>\<open>if task: task.cancel(); await task\<close>, the CancelledError swallowed\<close>
  "cancel_task t = (case t of None \<Rightarrow> None | Some Running \<Rightarrow> Some Cancelled | Some s \<Rightarrow> Some s)"

definition stream_close :: "nat \<Rightarrow> world \<Rightarrow> world" where
  \<comment> \<open>\<^verbatim>\<open>AudioStream.close\<close>: an exception of \<^verbatim>\<open>websocket.close()\<close> is swallowed\<close>
  "stream_close a w =
     (let s = streams w a;
          w1 = set_stream a (s\<lparr>active := False,
                               ping_task := cancel_task (ping_task s),
                               stream_task := cancel_task (stream_task s)\<rparr>) w
      in case ws_close (socket_of w1 a) of
           Inl e \<Rightarrow> w1
         | Inr ws \<Rightarrow> set_socket (websocket_ref s) ws w1)"

fun send_chunks :: "nat \<Rightarrow> byte list list \<Rightarrow> world \<Rightarrow> (exn + unit) \<times> world" where
  \<comment> \<open>the loop over the generator's chunks: stop when inactive, else send the chunk\<close>
  "send_chunks a [] w = (Inr (), w)"
| "send_chunks a (chunk # chunks) w =
     (if \<not> active (streams w a) then (Inr (), w)
      else case ws_send (Bytes chunk) (socket_of w a) of
             Inl e \<Rightarrow> (Inl e, w)
           | Inr ws \<Rightarrow> send_chunks a chunks (set_socket (websocket_ref (streams w a)) ws w))"

definition send_end_marker :: "nat \<Rightarrow> world \<Rightarrow> (exn + unit) \<times> world" where
  \<comment> \<open>\<^verbatim>\<open>if self._active: await self.websocket.send_json({"type": "end"})\<close>\<close>
  "send_end_marker a w =
     (if active (streams w a)
      then case ws_send end_frame (socket_of w a) of
             Inl e \<Rightarrow> (Inl e, w)
           | Inr ws \<Rightarrow> (Inr (), set_socket (websocket_ref (streams w a)) ws w)
      else (Inr (), w))"

definition stream_body :: "env \<Rightarrow> nat \<Rightarrow> json \<Rightarrow> json \<Rightarrow> real \<Rightarrow> world \<Rightarrow> (exn + unit) \<times> world" where
  \<comment> \<open>the \<^verbatim>\<open>try\<close> block of \<^verbatim>\<open>stream_audio\<close>\<close>
  "stream_body ev a txt voice speed w =
     (case generate_speech_stream (the_tts_model ev) txt voice speed ''en''
             (Some (CHUNK_SIZE (the_settings ev))) of
        Inl e \<Rightarrow> (Inl e, w)
      | Inr chunks \<Rightarrow>
          (case send_chunks a chunks w of
             (Inl e, w1) \<Rightarrow> (Inl e, w1)
           | (Inr _, w1) \<Rightarrow> send_end_marker a w1))"

definition stream_audio :: "env \<Rightarrow> nat \<Rightarrow> json \<Rightarrow> json \<Rightarrow> real \<Rightarrow> world \<Rightarrow> (exn + unit) \<times> world" where
  \<comment> \<open>\<^verbatim>\<open>AudioStream.stream_audio\<close>: any exception closes the stream and is re-raised
      as WebSocketError\<close>
  "stream_audio ev a txt voice speed w =
     (case stream_body ev a txt voice speed w of
        (Inl e, w1) \<Rightarrow> (Inl (Exc WebSocketError ''Audio streaming failed''), stream_close a w1)
      | (Inr _, w1) \<Rightarrow> (Inr (), w1))"

section \<open>The stream manager: \<^verbatim>\<open>StreamManager\<close>\<close>

definition create_stream :: "nat \<Rightarrow> world \<Rightarrow> (exn + nat) \<times> world" where
  "create_stream ws_ref w =
     (let (a, w1) = new_audio_stream ws_ref w
      in case stream_initialize a w1 of
           (Inl e, w2) \<Rightarrow> (Inl e, w2)
         | (Inr _, w2) \<Rightarrow>
             (Inr a, w2\<lparr>sm_streams := dict_set (session_id (streams w2 a)) a (sm_streams w2)\<rparr>))"

definition remove_stream :: "nat \<Rightarrow> world \<Rightarrow> world" where
  "remove_stream sid w =
     (case map_of (sm_streams w) sid of
        None \<Rightarrow> w
      | Some a \<Rightarrow> (let w1 = stream_close a w in w1\<lparr>sm_streams := dict_del sid (sm_streams w1)\<rparr>))"

definition active_streams :: "world \<Rightarrow> int" where
  \<comment> \<open>\<^verbatim>\<open>len(self._streams)\<close>\<close>
  "active_streams w = int (length (sm_streams w))"

section \<open>Connection management: \<^verbatim>\<open>src/api/dependencies.py\<close>\<close>

definition validate_connection_limit :: "env \<Rightarrow> world \<Rightarrow> exn + bool" where
  \<comment> \<open>the source builds its WebSocketError with a keyword \<^verbatim>\<open>status_code\<close> that the
      constructor does not take, so what is raised at the limit is a TypeError\<close>
  "validate_connection_limit ev w =
     (if active_streams w \<ge> MAX_CONNECTIONS (the_settings ev)
      then Inl (Exc TypeError ''__init__() got an unexpected keyword argument status_code'')
      else Inr True)"

definition connect :: "env \<Rightarrow> nat \<Rightarrow> world \<Rightarrow> (exn + nat) \<times> world" where
  \<comment> \<open>\<^verbatim>\<open>WebSocketManager.connect\<close>: every exception becomes one WebSocketError\<close>
  "connect ev ws_ref w =
     (case validate_connection_limit ev w of
        Inl e \<Rightarrow> (Inl (Exc WebSocketError ''Failed to establish WebSocket connection''), w)
      | Inr _ \<Rightarrow>
          (case create_stream ws_ref w of
             (Inl e, w1) \<Rightarrow> (Inl (Exc WebSocketError ''Failed to establish WebSocket connection''), w1)
           | (Inr a, w1) \<Rightarrow>
               (let sid = session_id (streams w1 a)
                in (Inr sid, w1\<lparr>active_connections := dict_set sid ws_ref (active_connections w1)\<rparr>))))"

fun connect_all :: "env \<Rightarrow> nat list \<Rightarrow> world \<Rightarrow> world" where
  \<comment> \<open>one call of \<open>connect\<close> after the other, for the sockets at the given addresses\<close>
  "connect_all ev [] w = w"
| "connect_all ev (r # rs) w = connect_all ev rs (snd (connect ev r w))"

definition disconnect :: "nat \<Rightarrow> world \<Rightarrow> world" where
  \<comment> \<open>\<^verbatim>\<open>WebSocketManager.disconnect\<close>\<close>
  "disconnect sid w =
     (if sid \<in> fst ` set (active_connections w)
      then (let w1 = remove_stream sid w
            in w1\<lparr>active_connections := dict_del sid (active_connections w1)\<rparr>)
      else w)"

section \<open>The message handler: \<^verbatim>\<open>src/api/websocket.py\<close>\<close>

datatype task_kind = ProcessMessages | Keepalive | Synthesis

record handler =
  h_websocket :: nat
  h_stream :: "nat option"
  h_session_id :: nat
  h_active :: bool
  message_queue :: "json list"
  tasks :: "(task_kind \<times> task_state) list"

definition new_handler :: "nat \<Rightarrow> world \<Rightarrow> handler \<times> world" where
  \<comment> \<open>\<^verbatim>\<open>WSMessageHandler(websocket)\<close>\<close>
  "new_handler ws_ref w =
     (\<lparr>h_websocket = ws_ref, h_stream = None, h_session_id = uuid_counter w, h_active = True,
       message_queue = [], tasks = []\<rparr>,
      w\<lparr>uuid_counter := Suc (uuid_counter w)\<rparr>)"

definition handler_initialize :: "handler \<Rightarrow> world \<Rightarrow> (exn + unit) \<times> handler \<times> world" where
  \<comment> \<open>\<^verbatim>\<open>WSMessageHandler.initialize\<close>: the stream is created without a check of the
      connection limit\<close>
  "handler_initialize h w =
     (case create_stream (h_websocket h) w of
        (Inl e, w1) \<Rightarrow> (Inl (Exc WebSocketError ''WebSocket initialization failed''), h, w1)
      | (Inr a, w1) \<Rightarrow>
          (Inr (),
           h\<lparr>h_stream := Some a,
             tasks := tasks h @ [(ProcessMessages, Running), (Keepalive, Running)]\<rparr>,
           w1))"

definition send_json_quietly :: "frame \<Rightarrow> nat \<Rightarrow> world \<Rightarrow> world" where
  \<comment> \<open>a send inside \<^verbatim>\<open>try\<close> whose exception is only logged\<close>
  "send_json_quietly f ws_ref w =
     (case ws_send f (sockets w ws_ref) of
        Inl e \<Rightarrow> w
      | Inr ws \<Rightarrow> set_socket ws_ref ws w)"

definition send_error :: "string \<Rightarrow> handler \<Rightarrow> world \<Rightarrow> world" where
  "send_error message h w = send_json_quietly (message_frame ''error'' message) (h_websocket h) w"

definition send_success :: "string \<Rightarrow> handler \<Rightarrow> world \<Rightarrow> world" where
  "send_success message h w = send_json_quietly (message_frame ''success'' message) (h_websocket h) w"

fun py_get :: "json \<Rightarrow> string \<Rightarrow> json \<Rightarrow> exn + json" where
  \<comment> \<open>\<^verbatim>\<open>message.get(key, default)\<close>: only a dict has the method; the text of the
      AttributeError is Python's without the name of the value's type\<close>
  "py_get (JDict kvs) key dflt = Inr (case map_of kvs key of None \<Rightarrow> dflt | Some v \<Rightarrow> v)"
| "py_get other key dflt = Inl (Exc AttributeError ''object has no attribute get'')"

fun truthy :: "json \<Rightarrow> bool" where
  "truthy JNull = False"
| "truthy (JBool b) = b"
| "truthy (JNum x) = (x \<noteq> 0)"
| "truthy (JStr s) = (s \<noteq> [])"
| "truthy (JList xs) = (xs \<noteq> [])"
| "truthy (JDict kvs) = (kvs \<noteq> [])"

fun py_float :: "env \<Rightarrow> json \<Rightarrow> exn + real" where
  "py_float ev (JNum x) = Inr x"
| "py_float ev (JBool b) = Inr (if b then 1 else 0)"
| "py_float ev (JStr s) =
     (case float_of_str ev s of
        None \<Rightarrow> Inl (Exc ValueError ''could not convert string to float'')
      | Some x \<Rightarrow> Inr x)"
| "py_float ev other = Inl (Exc TypeError ''float() argument must be a string or a real number'')"

definition synthesis_request :: "env \<Rightarrow> json \<Rightarrow> json \<Rightarrow> exn + (json \<times> real)" where
  \<comment> \<open>the voice and the speed of a request whose text is given\<close>
  "synthesis_request ev message txt =
     (case py_get message ''voice'' (JStr ''default'') of
        Inl e \<Rightarrow> Inl e
      | Inr voice \<Rightarrow>
          (case py_get message ''speed'' (JNum 1) of
             Inl e \<Rightarrow> Inl e
           | Inr sp \<Rightarrow>
               (case py_float ev sp of
                  Inl e \<Rightarrow> Inl e
                | Inr speed \<Rightarrow> Inr (voice, speed))))"

definition handle_synthesis :: "env \<Rightarrow> json \<Rightarrow> handler \<Rightarrow> world \<Rightarrow> handler \<times> world" where
  \<comment> \<open>\<^verbatim>\<open>_handle_synthesis\<close>: every exception ends in \<^verbatim>\<open>_send_error("Synthesis failed")\<close>;
      the synthesis task is awaited, so the call returns when the streaming has ended\<close>
  "handle_synthesis ev message h w =
     (case h_stream h of
        None \<Rightarrow> (h, send_error ''Synthesis failed'' h w)
      | Some a \<Rightarrow>
          (case py_get message ''text'' JNull of
             Inl e \<Rightarrow> (h, send_error ''Synthesis failed'' h w)
           | Inr txt \<Rightarrow>
               if \<not> truthy txt then (h, send_error ''No text provided'' h w)
               else
                 (case synthesis_request ev message txt of
                    Inl e \<Rightarrow> (h, send_error ''Synthesis failed'' h w)
                  | Inr (voice, speed) \<Rightarrow>
                      (case stream_audio ev a txt voice speed w of
                         (Inl e, w1) \<Rightarrow>
                           (h\<lparr>tasks := tasks h @ [(Synthesis, Failed e)]\<rparr>,
                            send_error ''Synthesis failed'' h w1)
                       | (Inr _, w1) \<Rightarrow>
                           (h\<lparr>tasks := tasks h @ [(Synthesis, Finished)]\<rparr>, w1)))))"

definition handle_stop :: "handler \<Rightarrow> world \<Rightarrow> world" where
  \<comment> \<open>\<^verbatim>\<open>_handle_stop\<close>: neither step of the \<^verbatim>\<open>try\<close> block can raise here\<close>
  "handle_stop h w =
     send_success ''Streaming stopped'' h
       (case h_stream h of None \<Rightarrow> w | Some a \<Rightarrow> stream_close a w)"

definition handle_configure :: "json \<Rightarrow> handler \<Rightarrow> world \<Rightarrow> world" where
  "handle_configure message h w = send_success ''Configuration updated'' h w"

definition handle_message :: "env \<Rightarrow> json \<Rightarrow> handler \<Rightarrow> world \<Rightarrow> handler \<times> world" where
  \<comment> \<open>\<^verbatim>\<open>_handle_message\<close>\<close>
  "handle_message ev message h w =
     (case py_get message ''type'' JNull of
        Inl e \<Rightarrow> (h, send_error (exn_str e) h w)
      | Inr message_type \<Rightarrow>
          if message_type = JStr ''synthesize'' then handle_synthesis ev message h w
          else if message_type = JStr ''pong'' then (h, w)
          else if message_type = JStr ''stop'' then (h, handle_stop h w)
          else if message_type = JStr ''configure'' then (h, handle_configure message h w)
          else (h, send_error ''Unknown message type'' h w))"

fun consume :: "env \<Rightarrow> json list \<Rightarrow> handler \<Rightarrow> world \<Rightarrow> json list \<times> handler \<times> world" where
  \<comment> \<open>the loop of \<^verbatim>\<open>_process_messages\<close> over the messages that are queued: one
      message at a time, the next one after the handler of the one before has returned\<close>
  "consume ev [] h w = ([], h, w)"
| "consume ev (message # queue) h w =
     (if h_active h
      then (case handle_message ev message h w of (h1, w1) \<Rightarrow> consume ev queue h1 w1)
      else (message # queue, h, w))"

definition process_messages :: "env \<Rightarrow> handler \<Rightarrow> world \<Rightarrow> handler \<times> world" where
  \<comment> \<open>the consumer task, run until the queue is empty (it then waits in \<^verbatim>\<open>get\<close>)\<close>
  "process_messages ev h w =
     (if (ProcessMessages, Running) \<in> set (tasks h)
      then (case consume ev (message_queue h) h w of
              (queue, h1, w1) \<Rightarrow> (h1\<lparr>message_queue := queue\<rparr>, w1))
      else (h, w))"

definition handle_incoming_message :: "json \<Rightarrow> handler \<Rightarrow> handler" where
  "handle_incoming_message message h = h\<lparr>message_queue := message_queue h @ [message]\<rparr>"

fun cancel_all :: "(task_kind \<times> task_state) list \<Rightarrow> exn option \<times> (task_kind \<times> task_state) list" where
  \<comment> \<open>the loop of \<^verbatim>\<open>cleanup\<close> over the tasks: awaiting a task that failed raises its
      exception again, and only CancelledError is caught\<close>
  "cancel_all [] = (None, [])"
| "cancel_all ((k, Failed e) # ts) = (Some e, (k, Failed e) # ts)"
| "cancel_all ((k, Running) # ts) = (case cancel_all ts of (r, ts') \<Rightarrow> (r, (k, Cancelled) # ts'))"
| "cancel_all ((k, s) # ts) = (case cancel_all ts of (r, ts') \<Rightarrow> (r, (k, s) # ts'))"

definition cleanup :: "handler \<Rightarrow> world \<Rightarrow> exn option \<times> handler \<times> world" where
  "cleanup h w =
     (case cancel_all (tasks h) of
        (Some e, ts) \<Rightarrow> (Some e, h\<lparr>h_active := False, tasks := ts\<rparr>, w)
      | (None, ts) \<Rightarrow>
          (None, h\<lparr>h_active := False, tasks := ts\<rparr>,
           disconnect (h_session_id h)
             (case h_stream h of None \<Rightarrow> w | Some a \<Rightarrow> stream_close a w)))"

text \<open>
  What the endpoint's two tasks meet, in the order in which the scheduler serves them:
  a frame that \<^verbatim>\<open>receive_json\<close> reads (valid JSON, malformed text, or the peer's
  disconnect), or a turn of the consumer task.
\<close>

datatype inbound = TextFrame json | Malformed | PeerDisconnect

datatype event = Receive inbound | RunConsumer

fun receive_loop :: "env \<Rightarrow> event list \<Rightarrow> handler \<Rightarrow> world \<Rightarrow> bool \<times> handler \<times> world" where
  \<comment> \<open>the \<^verbatim>\<open>while True\<close> loop of the endpoint; the flag tells whether the loop was
      left by \<^verbatim>\<open>break\<close>, or still waits for a frame when the events end\<close>
  "receive_loop ev [] h w = (False, h, w)"
| "receive_loop ev (RunConsumer # events) h w =
     (case process_messages ev h w of (h1, w1) \<Rightarrow> receive_loop ev events h1 w1)"
| "receive_loop ev (Receive frame # events) h w =
     (if application_state (sockets w (h_websocket h)) \<noteq> CONNECTED then (True, h, w)
      else case frame of
             PeerDisconnect \<Rightarrow> (True, h, w)
           | Malformed \<Rightarrow> receive_loop ev events h (send_error ''Invalid JSON message'' h w)
           | TextFrame message \<Rightarrow> receive_loop ev events (handle_incoming_message message h) w)"

definition websocket_endpoint_handler ::
  "env \<Rightarrow> nat \<Rightarrow> event list \<Rightarrow> world \<Rightarrow> exn option \<times> handler \<times> world" where
  "websocket_endpoint_handler ev ws_ref events w =
     (case new_handler ws_ref w of
        (h, w1) \<Rightarrow>
          (case handler_initialize h w1 of
             (Inl e, h2, w2) \<Rightarrow> cleanup h2 w2
           | (Inr _, h2, w2) \<Rightarrow>
               (case receive_loop ev events h2 w2 of
                  (True, h3, w3) \<Rightarrow> cleanup h3 w3
                | (False, h3, w3) \<Rightarrow> (None, h3, w3))))"

section \<open>Observing the transport\<close>

definition deliver :: "nat \<Rightarrow> frame list \<Rightarrow> world \<Rightarrow> world" where
  \<comment> \<open>the state \<open>w\<close> after the frames \<open>fs\<close> have been sent, in order, on the socket at \<open>r\<close>;
      nothing else differs\<close>
  "deliver r fs w = set_socket r ((sockets w r)\<lparr>outbox := outbox (sockets w r) @ fs\<rparr>) w"

section \<open>The tasks of one session, interleaved\<close>

text \<open>
  The consumer task, the synthesis tasks it starts, and whoever closes the stream run
  concurrently; control changes hands only where the source awaits. The state below is
  what these tasks share on one session, and an action is what one task does between two
  awaits. A request is one queued \<^verbatim>\<open>synthesize\<close> message, known by a number; \<open>gen r\<close>
  are the chunks that the generator yields for request \<open>r\<close>. The state also keeps the
  requests in the order in which they arrived, which the code does not store: it is what
  an observer of the inbound frames has seen.

  A synthesis task goes through these phases of \<^verbatim>\<open>stream_audio\<close>: it waits at
  \<^verbatim>\<open>async with self._lock\<close>; it owns the lock and runs the loop, with some chunks
  still to come; it has left the loop and is about to send the end marker; an exception
  has thrown it out of the \<^verbatim>\<open>with\<close> block, so that the lock is free again and
  \<^verbatim>\<open>close()\<close> comes next; it is done.
\<close>

datatype phase = NotStarted | Waiting | Streaming "byte list list" | Ending | Failing | Done

record session_tasks =
  arrived :: "nat list"
  requests :: "nat list"
  awaited :: "nat option"
  lock_holder :: "nat option"
  phase_of :: "nat \<Rightarrow> phase"
  stream_active :: bool
  sent_frames :: "(nat \<times> frame) list"

definition idle_session :: session_tasks where
  "idle_session = \<lparr>arrived = [], requests = [], awaited = None, lock_holder = None,
                   phase_of = (\<lambda>r. NotStarted), stream_active = True, sent_frames = []\<rparr>"

datatype action =
    Enqueue nat
  | Dequeue
  | Acquire nat
  | SendChunk nat
  | LeaveLoop nat
  | EndMarker nat
  | Fail nat
  | CloseAfterFail nat
  | Resume
  | CloseStream

fun exec :: "(nat \<Rightarrow> byte list list) \<Rightarrow> action \<Rightarrow> session_tasks \<Rightarrow> session_tasks option" where
  \<comment> \<open>the endpoint puts a new request into the message queue\<close>
  "exec gen (Enqueue r) s =
     (if r \<notin> set (arrived s)
      then Some (s\<lparr>arrived := arrived s @ [r], requests := requests s @ [r]\<rparr>) else None)"
  \<comment> \<open>the consumer, awaiting nothing, takes the first request and starts its synthesis task\<close>
| "exec gen Dequeue s =
     (case (awaited s, requests s) of
        (None, r # q) \<Rightarrow>
          Some (s\<lparr>requests := q, awaited := Some r, phase_of := (phase_of s)(r := Waiting)\<rparr>)
      | _ \<Rightarrow> None)"
  \<comment> \<open>\<^verbatim>\<open>async with self._lock\<close>: only a free lock can be taken\<close>
| "exec gen (Acquire r) s =
     (if phase_of s r = Waiting \<and> lock_holder s = None
      then Some (s\<lparr>lock_holder := Some r, phase_of := (phase_of s)(r := Streaming (gen r))\<rparr>)
      else None)"
  \<comment> \<open>one turn of the loop while the stream is active: \<^verbatim>\<open>send_bytes(chunk)\<close>\<close>
| "exec gen (SendChunk r) s =
     (case phase_of s r of
        Streaming (c # cs) \<Rightarrow>
          if stream_active s
          then Some (s\<lparr>sent_frames := sent_frames s @ [(r, Bytes c)],
                       phase_of := (phase_of s)(r := Streaming cs)\<rparr>)
          else None
      | _ \<Rightarrow> None)"
  \<comment> \<open>the loop ends: the generator is exhausted, or the stream is inactive and the loop breaks\<close>
| "exec gen (LeaveLoop r) s =
     (case phase_of s r of
        Streaming [] \<Rightarrow> Some (s\<lparr>phase_of := (phase_of s)(r := Ending)\<rparr>)
      | Streaming (c # cs) \<Rightarrow>
          if stream_active s then None else Some (s\<lparr>phase_of := (phase_of s)(r := Ending)\<rparr>)
      | _ \<Rightarrow> None)"
  \<comment> \<open>the end marker goes out if the stream is active; the \<^verbatim>\<open>with\<close> block ends and
      frees the lock\<close>
| "exec gen (EndMarker r) s =
     (if phase_of s r = Ending
      then Some (s\<lparr>sent_frames := (if stream_active s then sent_frames s @ [(r, end_frame)]
                                    else sent_frames s),
                   lock_holder := None, phase_of := (phase_of s)(r := Done)\<rparr>)
      else None)"
  \<comment> \<open>an exception inside the \<^verbatim>\<open>with\<close> block (the engine or a send): the lock is freed\<close>
| "exec gen (Fail r) s =
     (case phase_of s r of
        Streaming cs \<Rightarrow> Some (s\<lparr>lock_holder := None, phase_of := (phase_of s)(r := Failing)\<rparr>)
      | Ending \<Rightarrow> Some (s\<lparr>lock_holder := None, phase_of := (phase_of s)(r := Failing)\<rparr>)
      | _ \<Rightarrow> None)"
  \<comment> \<open>the \<^verbatim>\<open>except\<close> clause: \<^verbatim>\<open>await self.close()\<close>, then the task ends with the exception\<close>
| "exec gen (CloseAfterFail r) s =
     (if phase_of s r = Failing
      then Some (s\<lparr>stream_active := False, phase_of := (phase_of s)(r := Done)\<rparr>) else None)"
  \<comment> \<open>\<^verbatim>\<open>await synthesis_task\<close> returns to the consumer once the task is done\<close>
| "exec gen Resume s =
     (case awaited s of
        Some r \<Rightarrow> if phase_of s r = Done then Some (s\<lparr>awaited := None\<rparr>) else None
      | None \<Rightarrow> None)"
  \<comment> \<open>\<^verbatim>\<open>AudioStream.close()\<close> by any other party, at any time\<close>
| "exec gen CloseStream s = Some (s\<lparr>stream_active := False\<rparr>)"

fun run :: "(nat \<Rightarrow> byte list list) \<Rightarrow> action list \<Rightarrow> session_tasks \<Rightarrow> session_tasks option" where
  \<comment> \<open>a schedule: the actions in the order in which the event loop runs them; a schedule
      that asks for an action that cannot happen is no schedule\<close>
  "run gen [] s = Some s"
| "run gen (a # as) s = (case exec gen a s of None \<Rightarrow> None | Some s' \<Rightarrow> run gen as s')"

definition in_with_block :: "phase \<Rightarrow> bool" where
  \<comment> \<open>the task is inside \<^verbatim>\<open>async with self._lock\<close>\<close>
  "in_with_block p = (case p of Streaming cs \<Rightarrow> True | Ending \<Rightarrow> True | _ \<Rightarrow> False)"

definition finished :: "phase \<Rightarrow> bool" where
  \<comment> \<open>the streaming operation has completed or has been stopped: it sends nothing more\<close>
  "finished p = (p = Done \<or> p = Failing)"

definition callers :: "session_tasks \<Rightarrow> nat list" where
  \<comment> \<open>for every frame on the transport, in order, the request whose synthesis call sent it\<close>
  "callers s = map fst (sent_frames s)"

definition started :: "session_tasks \<Rightarrow> nat list" where
  \<comment> \<open>the requests that the consumer has taken from the queue, in the order of arrival\<close>
  "started s = take (length (arrived s) - length (requests s)) (arrived s)"

definition consumer_invariant :: "session_tasks \<Rightarrow> bool" where
  \<comment> \<open>the queue is first in, first out, and of the requests taken from it only the one
      that the consumer awaits can be unfinished\<close>
  "consumer_invariant s =
     (arrived s = started s @ requests s
    \<and> distinct (arrived s)
    \<and> (\<forall>r. (phase_of s r \<noteq> NotStarted) = (r \<in> set (started s)))
    \<and> (\<forall>r \<in> set (started s). awaited s \<noteq> Some r \<longrightarrow> phase_of s r = Done)
    \<and> (\<forall>r. awaited s = Some r \<longrightarrow> started s \<noteq> [] \<and> last (started s) = r))"

definition lock_invariant :: "session_tasks \<Rightarrow> bool" where
  \<comment> \<open>the task inside the \<^verbatim>\<open>with\<close> block is the one that owns the lock\<close>
  "lock_invariant s = (\<forall>r. in_with_block (phase_of s r) = (lock_holder s = Some r))"

definition callers_invariant :: "session_tasks \<Rightarrow> bool" where
  \<comment> \<open>a request whose frames are on the transport has finished or owns the lock, and the
      frames of the owner are the latest ones\<close>
  "callers_invariant s =
     ((\<forall>r \<in> set (callers s). finished (phase_of s r) \<or> lock_holder s = Some r)
    \<and> (\<forall>r \<in> set (callers s). lock_holder s = Some r \<longrightarrow> last (callers s) = r))"

definition not_interleaved :: "nat list \<Rightarrow> bool" where
  \<comment> \<open>when every run of adjacent frames of one request counts once, no request occurs
      twice: the frames of a request are one block\<close>
  "not_interleaved cs = distinct (remdups_adj cs)"

section \<open>Concrete inputs\<close>

text \<open>
  An engine that returns a float32 waveform of three samples for every request, an engine that
  fails on every request, and a model initialised with each.
\<close>

definition demo_engine :: engine where
  "demo_engine txt speaker language speed
     = Inr (Floats Float32 [Fin (1 / 2), Fin (- (1 / 4)), Fin 1])"

definition failing_engine :: engine where
  "failing_engine txt speaker language speed = Inl ''CUDA out of memory''"

definition demo_model :: tts_model where
  "demo_model = \<lparr>model = Some demo_engine, initialized = True, stream_chunk_size = 4096\<rparr>"

definition failing_model :: tts_model where
  "failing_model = \<lparr>model = Some failing_engine, initialized = True, stream_chunk_size = 4096\<rparr>"

text \<open>Settings with a small chunk size and a small connection limit.\<close>

definition demo_settings :: settings where
  "demo_settings = \<lparr>MAX_CONNECTIONS = 1, CHUNK_SIZE = 2\<rparr>"

definition demo_env :: env where
  "demo_env = \<lparr>the_settings = demo_settings, the_tts_model = demo_model,
               float_of_str = (\<lambda>s. None)\<rparr>"

definition failing_env :: env where
  "failing_env = \<lparr>the_settings = demo_settings, the_tts_model = failing_model,
                  float_of_str = (\<lambda>s. None)\<rparr>"

text \<open>
  A server with no stream and no connection, every socket still to be accepted; the
  next identifier that \<^verbatim>\<open>uuid4\<close> hands out is called 10.
\<close>

definition fresh_socket :: websocket where
  "fresh_socket = \<lparr>application_state = CONNECTING, outbox = []\<rparr>"

definition no_stream :: audio_stream where
  "no_stream = \<lparr>websocket_ref = 0, session_id = 0, active = False,
                 ping_task = None, stream_task = None\<rparr>"

definition empty_world :: world where
  "empty_world = \<lparr>uuid_counter = 10, sockets = (\<lambda>r. fresh_socket), streams = (\<lambda>a. no_stream),
                  sm_streams = [], active_connections = []\<rparr>"

text \<open>
  The handler and the state after the endpoint has initialised a handler for the socket
  at address 0: the handler has session id 10, its stream has session id 11.
\<close>

definition demo_stream_object :: audio_stream where
  "demo_stream_object = \<lparr>websocket_ref = 0, session_id = 11, active = True,
                          ping_task = Some Running, stream_task = None\<rparr>"

definition demo_handler :: handler where
  "demo_handler = \<lparr>h_websocket = 0, h_stream = Some 11, h_session_id = 10, h_active = True,
                   message_queue = [],
                   tasks = [(ProcessMessages, Running), (Keepalive, Running)]\<rparr>"

definition demo_world :: world where
  "demo_world = \<lparr>uuid_counter = 12,
                 sockets = (\<lambda>r. fresh_socket)(0 := \<lparr>application_state = CONNECTED, outbox = []\<rparr>),
                 streams = (\<lambda>a. no_stream)(11 := demo_stream_object),
                 sm_streams = [(11, 11)], active_connections = []\<rparr>"

definition synthesize_hello :: json where
  "synthesize_hello = JDict [(''type'', JStr ''synthesize''), (''text'', JStr ''hello'')]"

definition stop_message :: json where
  "stop_message = JDict [(''type'', JStr ''stop'')]"

definition dance_message :: json where
  \<comment> \<open>a well-formed frame of a type that the handler does not know\<close>
  "dance_message = JDict [(''type'', JStr ''dance'')]"

text \<open>
  Two synthesis requests, 21 and 22, both queued before the consumer takes the first; the
  generator yields the same two chunks for each. The schedule runs the first request to
  its end marker and the second up to its first chunk.
\<close>

definition demo_gen :: "nat \<Rightarrow> byte list list" where
  "demo_gen r = [[255, 63, 1, 224], [255, 127, 0, 0]]"

definition demo_schedule :: "action list" where
  "demo_schedule =
     [Enqueue 21, Enqueue 22, Dequeue, Acquire 21, SendChunk 21, SendChunk 21, LeaveLoop 21,
      EndMarker 21, Resume, Dequeue, Acquire 22, SendChunk 22]"

section \<open>The transport's operations, by state\<close>

lemma ws_accept_if:
  "ws_accept ws =
     (if application_state ws = CONNECTING then Inr (ws\<lparr>application_state := CONNECTED\<rparr>)
      else Inl (Exc RuntimeError
             (if application_state ws = CONNECTED
              then ''Expected ASGI message websocket.send or websocket.close''
              else ''Cannot call send once a close message has been sent'')))"
  by (simp add: ws_accept_def split: ws_state.splits)

lemma ws_send_if:
  "ws_send f ws =
     (if application_state ws = CONNECTED then Inr (ws\<lparr>outbox := outbox ws @ [f]\<rparr>)
      else Inl (Exc RuntimeError
             (if application_state ws = CONNECTING
              then ''Expected ASGI message websocket.accept or websocket.close''
              else ''Cannot call send once a close message has been sent'')))"
  by (simp add: ws_send_def split: ws_state.splits)

lemma ws_close_if:
  "ws_close ws =
     (if application_state ws = DISCONNECTED
      then Inl (Exc RuntimeError ''Cannot call send once a close message has been sent'')
      else Inr (ws\<lparr>application_state := DISCONNECTED\<rparr>))"
  by (simp add: ws_close_def split: ws_state.splits)

section \<open>Rounding\<close>

lemma scale_up_unfold:
  "scale_up n a = (if n = 0 \<or> a < 2 then 0 else 1 + scale_up (n - 1) (a / 2))"
  by (cases n) simp_all

lemma scale_down_unfold:
  "scale_down n a = (if n = 0 \<or> 1 \<le> a then 0 else scale_down (n - 1) (2 * a) - 1)"
  by (cases n) simp_all

lemmas fround_eval =
  fround_def quantum_def binade_def scale_up_unfold scale_down_unfold round_half_even_def Let_def

lemma scale_down_le: "scale_down n a \<le> 0"
proof (induction n arbitrary: a)
  case 0
  then show ?case by simp
next
  case (Suc n)
  have "scale_down n (2 * a) \<le> 0" by (rule Suc.IH)
  then show ?case by simp
qed

lemma scale_up_less: "1 \<le> a \<Longrightarrow> a < 2 ^ k \<Longrightarrow> scale_up n a < int k"
proof (induction n arbitrary: a k)
  case 0
  then have "k \<noteq> 0" by (cases k) auto
  then show ?case by simp
next
  case (Suc n)
  from Suc.prems have k: "k \<noteq> 0" by (cases k) auto
  then obtain j where j: "k = Suc j" by (cases k) auto
  show ?case
  proof (cases "a < 2")
    case True
    then show ?thesis using k by simp
  next
    case False
    then have "1 \<le> a / 2" by simp
    moreover have "a / 2 < 2 ^ j" using Suc.prems j by simp
    ultimately have "scale_up n (a / 2) < int j" by (rule Suc.IH)
    with False j show ?thesis by simp
  qed
qed

lemma binade_less:
  assumes "a < 2 ^ k"
  shows "binade f a < int k"
proof (cases "1 \<le> a")
  case True
  then have "scale_up (emax f + 1) a < int k" using assms by (rule scale_up_less)
  with True show ?thesis by (simp only: binade_def if_True)
next
  case False
  obtain n where n: "emin f = Suc n" by (cases f) (simp_all add: numeral_eq_Suc)
  have "scale_down n (2 * a) \<le> 0" by (rule scale_down_le)
  with False n have "binade f a < 0" by (simp add: binade_def)
  then show ?thesis by simp
qed

lemma quantum_pos: "0 < quantum f r"
  by (simp add: quantum_def)

lemma quantum_le:
  assumes "\<bar>r\<bar> < 2 ^ k"
  shows "quantum f r \<le> 2 powi (int k - int (precision f))"
proof -
  have "binade f \<bar>r\<bar> < int k" using assms by (rule binade_less)
  then have "binade f \<bar>r\<bar> - (int (precision f) - 1) \<le> int k - int (precision f)" by simp
  then show ?thesis unfolding quantum_def by (intro power_int_increasing) simp_all
qed

lemma round_half_even_close: "\<bar>real_of_int (round_half_even t) - t\<bar> \<le> 1 / 2"
  unfolding round_half_even_def Let_def by (auto; linarith)

lemma round_half_even_le: "t \<le> real_of_int n \<Longrightarrow> round_half_even t \<le> n"
  unfolding round_half_even_def Let_def by (auto; linarith)

lemma round_half_even_ge: "real_of_int n \<le> t \<Longrightarrow> n \<le> round_half_even t"
  unfolding round_half_even_def Let_def by (auto; linarith)

lemma precision_le_emax: "precision f \<le> emax f + 1"
  by (cases f) simp_all

lemma fround_bounded:
  assumes r: "\<bar>r\<bar> \<le> real_of_int c" and c: "c < 2 ^ precision f"
  shows "\<exists>y. fround f r = Fin y \<and> \<bar>y\<bar> \<le> real_of_int c \<and> \<bar>y - r\<bar> \<le> quantum f r / 2"
proof -
  define q where "q = quantum f r"
  define e where "e = binade f \<bar>r\<bar>"
  define j where "j = nat (int (precision f) - 1 - e)"
  define N where "N = c * 2 ^ j"
  define y where "y = real_of_int (round_half_even (r / q)) * q"
  have qpos: "0 < q" by (simp add: q_def quantum_pos)
  have "real_of_int c < 2 ^ precision f" using c by (metis of_int_less_numeral_power_cancel_iff)
  with r have "\<bar>r\<bar> < 2 ^ precision f" by linarith
  then have "e < int (precision f)" unfolding e_def by (rule binade_less)
  then have ej: "e - (int (precision f) - 1) = - int j" by (simp add: j_def)
  have q: "q = 1 / 2 ^ j"
    unfolding q_def quantum_def e_def [symmetric] ej
    by (simp add: power_int_minus field_simps)
  have Nq: "real_of_int N * q = real_of_int c" by (simp add: N_def q)
  have cq: "real_of_int c / q = real_of_int N" by (simp add: N_def q)
  have "r / q \<le> real_of_int c / q" using r qpos by (simp add: divide_right_mono)
  then have up: "round_half_even (r / q) \<le> N" unfolding cq by (rule round_half_even_le)
  have "- real_of_int c \<le> r" using r by linarith
  then have "(- real_of_int c) / q \<le> r / q" using qpos by (intro divide_right_mono) simp_all
  then have "real_of_int (- N) \<le> r / q" using cq by simp
  then have lo: "- N \<le> round_half_even (r / q)" by (rule round_half_even_ge)
  have "\<bar>real_of_int (round_half_even (r / q))\<bar> \<le> real_of_int N"
    using up lo by linarith
  then have "\<bar>y\<bar> \<le> real_of_int N * q"
    using qpos by (simp add: y_def abs_mult mult_right_mono)
  then have yc: "\<bar>y\<bar> \<le> real_of_int c" by (simp only: Nq)
  have "\<bar>real_of_int (round_half_even (r / q)) - r / q\<bar> \<le> 1 / 2"
    by (rule round_half_even_close)
  then have "\<bar>real_of_int (round_half_even (r / q)) - r / q\<bar> * q \<le> 1 / 2 * q"
    using qpos by (simp add: mult_right_mono)
  moreover have "\<bar>real_of_int (round_half_even (r / q)) - r / q\<bar> * q = \<bar>y - r\<bar>"
  proof -
    have "y - r = (real_of_int (round_half_even (r / q)) - r / q) * q"
      using qpos by (simp add: y_def field_simps)
    then show ?thesis using qpos by (simp add: abs_mult)
  qed
  ultimately have close: "\<bar>y - r\<bar> \<le> q / 2" by simp
  have "(2::real) ^ precision f \<le> 2 ^ (emax f + 1)"
    by (intro power_increasing precision_le_emax) simp
  with yc \<open>real_of_int c < 2 ^ precision f\<close> have "\<not> 2 ^ (emax f + 1) \<le> \<bar>y\<bar>" by linarith
  then have "fround f r = Fin y"
    unfolding fround_def q_def [symmetric] y_def [symmetric] Let_def by (simp only: if_False)
  with yc close show ?thesis by (auto simp: q_def)
qed

lemma fround_unit:
  assumes "\<bar>r\<bar> \<le> 1"
  shows "\<exists>y. fround f r = Fin y \<and> \<bar>y\<bar> \<le> 1"
proof -
  have "\<bar>r\<bar> \<le> real_of_int 1" using assms by simp
  moreover have "(1::int) < 2 ^ precision f" by (cases f) simp_all
  ultimately obtain y where "fround f r = Fin y" "\<bar>y\<bar> \<le> real_of_int 1"
    using fround_bounded by blast
  then show ?thesis by auto
qed

lemma fround32_unit:
  assumes "\<bar>r\<bar> \<le> 1"
  shows "\<exists>y. fround Float32 r = Fin y \<and> \<bar>y\<bar> \<le> 1 \<and> \<bar>y - r\<bar> \<le> 1 / 2 ^ 24"
proof -
  have "\<bar>r\<bar> \<le> real_of_int 1" using assms by simp
  moreover have "(1::int) < 2 ^ precision Float32" by simp
  ultimately obtain y where y: "fround Float32 r = Fin y" "\<bar>y\<bar> \<le> real_of_int 1"
      "\<bar>y - r\<bar> \<le> quantum Float32 r / 2"
    using fround_bounded by blast
  have "\<bar>r\<bar> < 2 ^ 1" using assms by simp
  then have "quantum Float32 r \<le> 2 powi (int 1 - int (precision Float32))" by (rule quantum_le)
  then have "quantum Float32 r \<le> 1 / 2 ^ 23" by (simp add: power_int_minus field_simps)
  with y show ?thesis by (intro exI [of _ y]) simp
qed

lemma fround32_pcm:
  assumes "\<bar>r\<bar> \<le> 32767"
  shows "\<exists>y. fround Float32 r = Fin y \<and> \<bar>y\<bar> \<le> 32767 \<and> \<bar>y - r\<bar> \<le> 1 / 2 ^ 10"
proof -
  have "\<bar>r\<bar> \<le> real_of_int 32767" using assms by simp
  moreover have "(32767::int) < 2 ^ precision Float32" by simp
  ultimately obtain y where y: "fround Float32 r = Fin y" "\<bar>y\<bar> \<le> real_of_int 32767"
      "\<bar>y - r\<bar> \<le> quantum Float32 r / 2"
    using fround_bounded by blast
  have "\<bar>r\<bar> < 2 ^ 15" using assms by simp
  then have "quantum Float32 r \<le> 2 powi (int 15 - int (precision Float32))" by (rule quantum_le)
  then have "quantum Float32 r \<le> 1 / 2 ^ 9" by (simp add: power_int_minus field_simps)
  with y show ?thesis by (intro exI [of _ y]) simp
qed

lemma fround_one: "fround f 1 = Fin 1" "fround f (- 1) = Fin (- 1)"
  by (cases f; simp add: fround_eval)+

section \<open>Chunking of the generated waveform\<close>

lemma concat_full_windows:
  "concat (map (\<lambda>k. take cs (drop (k * cs) w)) [0 ..< q]) = take (q * cs) w"
proof (induction q)
  case 0
  then show ?case by simp
next
  case (Suc q)
  have "take (q * cs + cs) w = take (q * cs) w @ take cs (drop (q * cs) w)"
    by (simp add: take_add)
  with Suc show ?case by (simp add: add.commute)
qed

lemma speech_chunks_length:
  "0 < cs \<Longrightarrow> c \<in> set (speech_chunks cs w idxs) \<Longrightarrow> length c = cs"
  by (auto simp: speech_chunks_def pad_chunk_def)

lemma tobytes_length: "length (tobytes ws) = 2 * length ws"
  by (induction ws) (simp_all add: tobytes_def int16_bytes_def)

lemma tobytes_append: "tobytes (xs @ ys) = tobytes xs @ tobytes ys"
  by (simp add: tobytes_def)

lemma concat_tobytes: "concat (map tobytes cs) = tobytes (concat cs)"
  by (induction cs) (simp_all add: tobytes_append, simp add: tobytes_def)

lemma window_count:
  assumes "0 < cs"
  shows "nat ((int n + int cs - 1) div int cs) = (if n mod cs = 0 then n div cs else Suc (n div cs))"
proof -
  define q r where "q = n div cs" and "r = n mod cs"
  have n: "n = cs * q + r" and r: "r < cs"
    using assms by (simp_all add: q_def r_def)
  have nat_form: "(int n + int cs - 1) = int (n + cs - 1)"
    using assms by (simp add: of_nat_diff)
  have "(n + cs - 1) div cs = (if r = 0 then q else Suc q)"
  proof (cases "r = 0")
    case True
    have "cs * q \<le> n + cs - 1" using n assms by simp
    moreover have "n + cs - 1 < cs * Suc q" using n True assms by simp
    ultimately have "(n + cs - 1) div cs = q" by (rule div_nat_eqI)
    with True show ?thesis by simp
  next
    case False
    have "cs * Suc q \<le> n + cs - 1" using n False by simp
    moreover have "n + cs - 1 < cs * Suc (Suc q)" using n r by simp
    ultimately have "(n + cs - 1) div cs = Suc q" by (rule div_nat_eqI)
    with False show ?thesis by simp
  qed
  then have "nat (int ((n + cs - 1) div cs)) = (if r = 0 then q else Suc q)" by simp
  then show ?thesis
    unfolding nat_form q_def r_def by (simp only: zdiv_int)
qed

lemma concat_speech_chunks:
  assumes "0 < cs"
  shows "concat (speech_chunks cs w (map (\<lambda>k. k * cs)
            [0 ..< (if length w mod cs = 0 then length w div cs else Suc (length w div cs))]))
         = w @ replicate (padding cs (length w)) 0"
proof -
  define q where "q = length w div cs"
  have full: "\<And>k. k < q \<Longrightarrow> pad_chunk cs (take cs (drop (k * cs) w)) = take cs (drop (k * cs) w)"
  proof -
    fix k assume "k < q"
    then have "Suc k * cs \<le> q * cs" by (simp add: Suc_leI mult_le_mono1 del: mult_Suc)
    also have "\<dots> \<le> length w" by (simp add: q_def)
    finally have "cs \<le> length w - k * cs" by simp
    then show "pad_chunk cs (take cs (drop (k * cs) w)) = take cs (drop (k * cs) w)"
      by (simp add: pad_chunk_def)
  qed
  have pre: "concat (map (\<lambda>i. pad_chunk cs (take cs (drop i w))) (map (\<lambda>k. k * cs) [0 ..< q]))
      = take (q * cs) w"
  proof -
    have "map (\<lambda>i. pad_chunk cs (take cs (drop i w))) (map (\<lambda>k. k * cs) [0 ..< q])
        = map (\<lambda>k. take cs (drop (k * cs) w)) [0 ..< q]"
      using full by (simp add: comp_def)
    then show ?thesis by (simp only: concat_full_windows)
  qed
  show ?thesis
  proof (cases "length w mod cs = 0")
    case True
    then have "q * cs = length w"
      using div_mult_mod_eq [of "length w" cs] by (simp add: q_def)
    with True pre show ?thesis
      by (simp add: speech_chunks_def padding_def q_def)
  next
    case False
    have len: "length w = q * cs + length w mod cs" by (simp add: q_def)
    have lt: "length w mod cs < cs" using assms by simp
    have last: "take cs (drop (q * cs) w) = drop (q * cs) w"
      using len lt by simp
    have llen: "length (drop (q * cs) w) = length w mod cs" using len by simp
    have pad: "pad_chunk cs (drop (q * cs) w) = drop (q * cs) w @ replicate (cs - length w mod cs) 0"
      using lt llen by (simp add: pad_chunk_def)
    have p: "padding cs (length w) = cs - length w mod cs"
      using False lt by (simp add: padding_def)
    have "concat (speech_chunks cs w (map (\<lambda>k. k * cs) [0 ..< Suc q]))
        = take (q * cs) w @ pad_chunk cs (take cs (drop (q * cs) w))"
      using pre by (simp add: speech_chunks_def)
    also have "\<dots> = w @ replicate (cs - length w mod cs) 0"
      by (simp add: last pad)
    finally show ?thesis using False p by (simp add: q_def)
  qed
qed

lemma demo_generate_speech:
  "generate_speech demo_model (JStr ''hello'') (JStr ''default'') 1 ''en''
     = Inr (Floats Float32 [Fin (1 / 2), Fin (- (1 / 4)), Fin 1])"
  by (simp add: generate_speech_def ensure_initialized_def demo_model_def demo_engine_def)

lemma to_pcm16_length: "length (to_pcm16 wav) = len wav"
  by (cases wav) simp_all

lemma demo_pcm:
  "to_pcm16 (Floats Float32 [Fin (1 / 2), Fin (- (1 / 4)), Fin 1]) = [16383, - 8191, 32767]"
  by (simp add: times_32767_def astype_int16_def round_toward_zero_def fround_eval)

lemma demo_stream:
  "generate_speech_stream demo_model (JStr ''hello'') (JStr ''default'') 1 ''en'' (Some 2)
     = Inr [[255, 63, 1, 224], [255, 127, 0, 0]]"
proof -
  have sel: "initialized demo_model" "model demo_model = Some demo_engine"
    by (simp_all add: demo_model_def)
  show ?thesis
    by (simp add: generate_speech_stream_def demo_generate_speech ensure_initialized_def sel
      demo_pcm py_range_def speech_chunks_def pad_chunk_def tobytes_def int16_bytes_def upt_rec
      del: to_pcm16.simps)
qed

text \<open>
  Claim C6. Whenever the engine has produced a waveform and the chunk size is positive,
  \<open>generate_speech_stream\<close> yields the bytes of arrays that all hold exactly
  \<open>chunk_size\<close> int16 samples, so every chunk is \<open>2 * chunk_size\<close> bytes long; the
  arrays, put end to end, are the int16-converted waveform followed by the zeros that
  bring it up to the next multiple of the chunk size.
\<close>

theorem generate_speech_stream_fixed_size:
  assumes gen: "generate_speech m txt voice speed language = Inr wav"
    and pos: "0 < cs"
  shows "\<exists>arrays.
           generate_speech_stream m txt voice speed language (Some cs) = Inr (map tobytes arrays)
         \<and> (\<forall>c \<in> set arrays. length c = nat cs)
         \<and> (\<forall>b \<in> set (map tobytes arrays). length b = 2 * nat cs)
         \<and> concat arrays = to_pcm16 wav @ replicate (padding (nat cs) (len wav)) 0
         \<and> concat (map tobytes arrays)
             = tobytes (to_pcm16 wav @ replicate (padding (nat cs) (len wav)) 0)"
proof -
  define n where "n = len wav"
  have npcm: "length (to_pcm16 wav) = n" by (simp add: to_pcm16_length n_def)
  define idxs where "idxs = map (\<lambda>k. k * nat cs) [0 ..< nat ((int n + cs - 1) div cs)]"
  define arrays where "arrays = speech_chunks (nat cs) (to_pcm16 wav) idxs"
  have init: "ensure_initialized m = Inr ()" and mdl: "model m \<noteq> None"
    using gen by (auto simp: generate_speech_def split: sum.splits option.splits)
  have range: "py_range (int n) cs = Inr idxs"
    using pos by (simp add: py_range_def idxs_def)
  have out: "generate_speech_stream m txt voice speed language (Some cs) = Inr (map tobytes arrays)"
    using init mdl gen pos range
    by (auto simp: generate_speech_stream_def arrays_def npcm split: option.splits)
  have cspos: "0 < nat cs" using pos by simp
  have len: "\<forall>c \<in> set arrays. length c = nat cs"
    using speech_chunks_length [OF cspos] by (auto simp: arrays_def)
  have blen: "\<forall>b \<in> set (map tobytes arrays). length b = 2 * nat cs"
    using len by (auto simp: tobytes_length)
  have "int n + cs - 1 = int n + int (nat cs) - 1" using pos by simp
  then have cnt: "nat ((int n + cs - 1) div cs)
       = (if n mod nat cs = 0 then n div nat cs else Suc (n div nat cs))"
    using window_count [OF cspos, of n] pos by simp
  have cat: "concat arrays = to_pcm16 wav @ replicate (padding (nat cs) (len wav)) 0"
    using concat_speech_chunks [OF cspos, of "to_pcm16 wav"]
    unfolding arrays_def idxs_def cnt npcm by (simp add: n_def)
  have bcat: "concat (map tobytes arrays)
      = tobytes (to_pcm16 wav @ replicate (padding (nat cs) (len wav)) 0)"
    by (simp only: concat_tobytes cat)
  from out len blen cat bcat show ?thesis by blast
qed

theorem generate_speech_stream_fixed_size_witness:
  "generate_speech demo_model (JStr ''hello'') (JStr ''default'') 1 ''en''
     = Inr (Floats Float32 [Fin (1 / 2), Fin (- (1 / 4)), Fin 1])
   \<and> (0::int) < 2
   \<and> generate_speech_stream demo_model (JStr ''hello'') (JStr ''default'') 1 ''en'' (Some 2)
     = Inr [[255, 63, 1, 224], [255, 127, 0, 0]]
   \<and> tobytes (to_pcm16 (Floats Float32 [Fin (1 / 2), Fin (- (1 / 4)), Fin 1])
              @ replicate (padding 2 3) 0)
     = [255, 63, 1, 224, 255, 127, 0, 0]"
proof -
  have pos: "(0::int) < 2" by simp
  from generate_speech_stream_fixed_size [OF demo_generate_speech pos]
  obtain arrays where
    a: "generate_speech_stream demo_model (JStr ''hello'') (JStr ''default'') 1 ''en'' (Some 2)
          = Inr (map tobytes arrays)"
    and c: "concat (map tobytes arrays)
          = tobytes (to_pcm16 (Floats Float32 [Fin (1 / 2), Fin (- (1 / 4)), Fin 1])
              @ replicate
                  (padding (nat 2) (len (Floats Float32 [Fin (1 / 2), Fin (- (1 / 4)), Fin 1]))) 0)"
    by blast
  from a have "map tobytes arrays = [[255, 63, 1, 224], [255, 127, 0, 0]]"
    by (simp add: demo_stream)
  with c have "tobytes (to_pcm16 (Floats Float32 [Fin (1 / 2), Fin (- (1 / 4)), Fin 1])
              @ replicate
                  (padding (nat 2) (len (Floats Float32 [Fin (1 / 2), Fin (- (1 / 4)), Fin 1]))) 0)
      = [255, 63, 1, 224, 255, 127, 0, 0]"
    by simp
  moreover have "padding (nat 2) (len (Floats Float32 [Fin (1 / 2), Fin (- (1 / 4)), Fin 1]))
      = padding 2 3"
    by (simp add: numeral_3_eq_3)
  ultimately show ?thesis
    using demo_generate_speech demo_stream by simp
qed

section \<open>The WAV round trip\<close>

lemma int16_bytes_roundtrip:
  "(ucast (ucast w :: byte) OR push_bit 8 (ucast (ucast (drop_bit 8 w) :: byte))) = (w :: int16)"
  by (rule bit_word_eqI) (auto simp: bit_simps)

lemma frombuffer_pairs_tobytes: "frombuffer_pairs (tobytes ws) = ws"
  by (induction ws) (simp_all add: tobytes_def int16_bytes_def int16_bytes_roundtrip)

lemma frombuffer_tobytes: "frombuffer (tobytes ws) = Inr ws"
  by (simp add: frombuffer_def tobytes_length frombuffer_pairs_tobytes)

lemma round_toward_zero_close: "\<bar>real_of_int (round_toward_zero y) - y\<bar> < 1"
  unfolding round_toward_zero_def by (auto; linarith)

lemma round_toward_zero_bound:
  assumes "\<bar>y\<bar> \<le> real_of_int k"
  shows "\<bar>round_toward_zero y\<bar> \<le> k"
proof (cases "0 \<le> y")
  case True
  then have "\<lfloor>y\<rfloor> \<le> k" "0 \<le> \<lfloor>y\<rfloor>" using assms by (simp_all add: floor_le_iff)
  with True show ?thesis by (simp add: round_toward_zero_def)
next
  case False
  then have "- k \<le> \<lceil>y\<rceil>" "\<lceil>y\<rceil> \<le> 0"
    using assms by (simp_all add: le_ceiling_iff ceiling_le_iff)
  with False show ?thesis by (simp add: round_toward_zero_def)
qed

lemma sint_astype_int16:
  assumes "\<bar>p\<bar> \<le> 32767"
  shows "sint (astype_int16 (Fin p)) = round_toward_zero p"
proof -
  have "\<bar>p\<bar> \<le> real_of_int 32767" using assms by simp
  then have b: "\<bar>round_toward_zero p\<bar> \<le> 32767" by (rule round_toward_zero_bound)
  then have "signed_take_bit 15 (round_toward_zero p) = round_toward_zero p"
    by (intro signed_take_bit_int_eq_self) simp_all
  moreover have "- (2 ^ 31) \<le> round_toward_zero p" "round_toward_zero p < 2 ^ 31"
    using b by simp_all
  ultimately show ?thesis
    by (simp add: astype_int16_def sint_sbintrunc')
qed

lemma foldl_np_maximum: "foldl np_maximum (Fin m) (map Fin cs) = Fin (foldl max m cs)"
  by (induction cs arbitrary: m) (simp_all add: max_def)

lemma foldl_max: "foldl max (m :: real) cs = Max (set (m # cs))"
proof -
  have "(\<lambda>x s. max s x) = (max :: real \<Rightarrow> real \<Rightarrow> real)"
    by (intro ext) (rule max.commute)
  then show ?thesis by (simp only: Max.set_eq_fold foldl_conv_fold)
qed

lemma np_max_finite:
  assumes "rs \<noteq> []"
  shows "np_max (map np_abs (map Fin rs)) = Inr (Fin (Max (set (map abs rs))))"
proof -
  obtain a bs where rs: "rs = a # bs" using assms by (cases rs) auto
  have "map np_abs (map Fin bs) = map Fin (map abs bs)" by simp
  then have "np_max (map np_abs (map Fin rs))
      = Inr (foldl np_maximum (Fin \<bar>a\<bar>) (map Fin (map abs bs)))"
    unfolding rs by (simp add: np_max_def comp_def)
  also have "\<dots> = Inr (Fin (Max (set (\<bar>a\<bar> # map abs bs))))"
    by (simp only: foldl_np_maximum foldl_max)
  finally show ?thesis by (simp add: rs)
qed

lemma abs_max_bounds:
  assumes "rs \<noteq> []"
  shows "0 \<le> Max (set (map abs rs))"
    and "\<forall>x \<in> set rs. \<bar>x\<bar> \<le> Max (set (map abs rs))"
    and "\<exists>x \<in> set rs. \<bar>x :: real\<bar> = Max (set (map abs rs))"
proof -
  let ?S = "set (map abs rs)"
  have fin: "finite ?S" and ne: "?S \<noteq> {}" using assms by simp_all
  have "Max ?S \<in> ?S" using fin ne by (rule Max_in)
  then obtain x where x: "x \<in> set rs" "\<bar>x\<bar> = Max ?S" by auto
  then show "\<exists>x \<in> set rs. \<bar>x\<bar> = Max ?S" by blast
  show "\<forall>y \<in> set rs. \<bar>y\<bar> \<le> Max ?S" using fin by (simp add: Max_ge)
  show "0 \<le> Max ?S" using x by (metis abs_ge_zero)
qed

lemma astype_float32_unit:
  assumes "\<forall>x \<in> set rs. \<bar>x\<bar> \<le> 1"
  shows "\<exists>xs. astype_float32 (Floats f (map Fin rs)) = map Fin xs
            \<and> list_all2 (\<lambda>y x. \<bar>y\<bar> \<le> 1 \<and> \<bar>y - x\<bar> \<le> 1 / 2 ^ 24) xs rs"
proof (cases f)
  case Float32
  have "list_all2 (\<lambda>y x. \<bar>y\<bar> \<le> 1 \<and> \<bar>y - x\<bar> \<le> 1 / 2 ^ 24) rs rs"
    using assms by (simp add: list_all2_same)
  with Float32 show ?thesis by (intro exI [of _ rs]) simp
next
  case Float64
  have "\<exists>xs. map (\<lambda>x. case x of Fin r \<Rightarrow> fround Float32 r | _ \<Rightarrow> x) (map Fin rs) = map Fin xs
            \<and> list_all2 (\<lambda>y x. \<bar>y\<bar> \<le> 1 \<and> \<bar>y - x\<bar> \<le> 1 / 2 ^ 24) xs rs"
    using assms
  proof (induction rs)
    case Nil
    then show ?case by simp
  next
    case (Cons r rs)
    then obtain xs where xs:
      "map (\<lambda>x. case x of Fin r \<Rightarrow> fround Float32 r | _ \<Rightarrow> x) (map Fin rs) = map Fin xs"
      "list_all2 (\<lambda>y x. \<bar>y\<bar> \<le> 1 \<and> \<bar>y - x\<bar> \<le> 1 / 2 ^ 24) xs rs"
      by auto
    have "\<bar>r\<bar> \<le> 1" using Cons.prems by simp
    then obtain y where y: "fround Float32 r = Fin y" "\<bar>y\<bar> \<le> 1" "\<bar>y - r\<bar> \<le> 1 / 2 ^ 24"
      using fround32_unit by blast
    show ?case using xs y by (intro exI [of _ "y # xs"]) simp
  qed
  with Float64 show ?thesis by simp
qed

lemma sample_round_trip:
  assumes "\<bar>y\<bar> \<le> 1"
  shows "\<exists>z. fdiv Float32 (Fin (real_of_int (sint (astype_int16 (times_32767 Float32 (Fin y))))))
                 (Fin 32767) = Fin z
           \<and> \<bar>z - y\<bar> < 1 / 32767 + 1 / 2 ^ 23"
proof -
  have "\<bar>y * 32767\<bar> \<le> 32767" using assms by (simp add: abs_mult)
  then obtain p where p: "fround Float32 (y * 32767) = Fin p" "\<bar>p\<bar> \<le> 32767"
      "\<bar>p - y * 32767\<bar> \<le> 1 / 2 ^ 10"
    using fround32_pcm by blast
  define k where "k = round_toward_zero p"
  have s: "sint (astype_int16 (times_32767 Float32 (Fin y))) = k"
    using sint_astype_int16 [OF p(2)] by (simp add: times_32767_def p(1) k_def)
  have "\<bar>p\<bar> \<le> real_of_int 32767" using p(2) by simp
  then have kb: "\<bar>k\<bar> \<le> 32767" unfolding k_def by (rule round_toward_zero_bound)
  have kp: "\<bar>real_of_int k - p\<bar> < 1" unfolding k_def by (rule round_toward_zero_close)
  have "\<bar>real_of_int k\<bar> \<le> 32767" using kb by linarith
  then have "\<bar>real_of_int k / 32767\<bar> \<le> 1" by simp
  then obtain z where z: "fround Float32 (real_of_int k / 32767) = Fin z"
      "\<bar>z - real_of_int k / 32767\<bar> \<le> 1 / 2 ^ 24"
    using fround32_unit by blast
  have d: "fdiv Float32 (Fin (real_of_int k)) (Fin 32767) = Fin z" by (simp add: z(1))
  have "\<bar>real_of_int k - y * 32767\<bar> < 1 + 1 / 2 ^ 10" using kp p(3) by linarith
  then have "\<bar>real_of_int k / 32767 - y\<bar> < (1 + 1 / 2 ^ 10) / 32767"
    by (simp add: abs_if field_simps split: if_splits)
  with z(2) have "\<bar>z - y\<bar> < 1 / 2 ^ 24 + (1 + 1 / 2 ^ 10) / 32767" by linarith
  also have "\<dots> \<le> 1 / 32767 + 1 / 2 ^ 23" by simp
  finally show ?thesis using d s by auto
qed

lemma array_too_long:
  assumes "4294967295 < 36 + 2 * int (len audio)"
  shows "array_to_wav_bytes config audio = Inl (Exc AudioError ''Failed to convert array to WAV'')"
proof -
  have l: "length (astype_float32 audio) = len audio"
    by (cases audio rule: astype_float32.cases) simp_all
  show ?thesis
    using assms
    by (auto simp: array_to_wav_bytes_def Let_def wave_write_def tobytes_length l
        split: sum.splits)
qed

lemma demo_array_to_wav_bytes:
  "array_to_wav_bytes default_audio_config (Floats Float64 [Fin (1 / 2), Fin (- (1 / 4)), Fin 1])
     = Inr \<lparr>nchannels = 1, sampwidth = 2, framerate = 24000,
            frames = [255, 63, 1, 224, 255, 127]\<rparr>"
  by (simp add: array_to_wav_bytes_def np_max_def default_audio_config_def wave_write_def
      times_32767_def astype_int16_def round_toward_zero_def fround_eval
      tobytes_def int16_bytes_def)

text \<open>
  The three float32 roundings of the round trip can add up to more than the step of the
  int16 quantisation: the float64 sample \<open>4512533427781631 / 2^57\<close> is written as the
  int16 sample 1025 and read back as \<open>32801 / 2^20\<close>, which is further from it than
  \<open>1 / 32767\<close>.
\<close>

lemma round_trip_beyond_quantisation_step:
  "array_to_wav_bytes default_audio_config
       (Floats Float64 [Fin (4512533427781631 / 144115188075855872)])
     = Inr \<lparr>nchannels = 1, sampwidth = 2, framerate = 24000, frames = [1, 4]\<rparr>
   \<and> wav_bytes_to_array \<lparr>nchannels = 1, sampwidth = 2, framerate = 24000, frames = [1, 4]\<rparr>
     = Inr (Floats Float32 [Fin (32801 / 1048576)], 24000)
   \<and> 1 / 32767 < \<bar>32801 / 1048576 - 4512533427781631 / 144115188075855872 :: real\<bar>"
  by (simp add: array_to_wav_bytes_def np_max_def default_audio_config_def wave_write_def
      times_32767_def astype_int16_def round_toward_zero_def fround_eval
      tobytes_def int16_bytes_def wav_bytes_to_array_def wave_read_def getnframes_def
      readframes_def frombuffer_def)

text \<open>
  A configuration that the \<^verbatim>\<open>wave\<close> module or the WAV header refuses makes
  \<open>array_to_wav_bytes\<close> raise AudioError on every array: no channel, no sample rate, a
  sample width of 5 bytes, a frame size beyond 16 bits.
\<close>

lemma wav_header_refused:
  "array_to_wav_bytes (default_audio_config\<lparr>num_channels := 0\<rparr>) (Floats Float32 [Fin (1 / 2)])
     = Inl (Exc AudioError ''Failed to convert array to WAV'')"
  "array_to_wav_bytes (default_audio_config\<lparr>sample_rate := 0\<rparr>) (Floats Float32 [Fin (1 / 2)])
     = Inl (Exc AudioError ''Failed to convert array to WAV'')"
  "array_to_wav_bytes (default_audio_config\<lparr>bits_per_sample := 40\<rparr>) (Floats Float32 [Fin (1 / 2)])
     = Inl (Exc AudioError ''Failed to convert array to WAV'')"
  "array_to_wav_bytes (default_audio_config\<lparr>num_channels := 32768\<rparr>) (Floats Float32 [Fin (1 / 2)])
     = Inl (Exc AudioError ''Failed to convert array to WAV'')"
  by (simp_all add: array_to_wav_bytes_def np_max_def default_audio_config_def wave_write_def
      times_32767_def astype_int16_def round_toward_zero_def fround_eval
      tobytes_def int16_bytes_def)

text \<open>
  Claim C8 at concrete inputs. The claim fails on the empty array, whose maximum numpy
  refuses to take: \<open>array_to_wav_bytes\<close> raises AudioError there. It fails when the data
  is not a whole number of frames: with two channels a single sample is written, and read
  back as no sample at all. It fails when a field of the WAV header overflows: a sample
  rate of \<open>2^31\<close> (the byte rate no longer fits 32 bits) and an array of \<open>2^31 - 18\<close>
  samples (the length of the file no longer fits 32 bits) make \<open>array_to_wav_bytes\<close> raise
  AudioError.
\<close>

theorem wav_round_trip_counterexample:
  "array_to_wav_bytes default_audio_config (Floats Float32 [])
     = Inl (Exc AudioError ''Failed to convert array to WAV'')
   \<and> array_to_wav_bytes (default_audio_config\<lparr>num_channels := 2\<rparr>) (Floats Float32 [Fin (1 / 2)])
     = Inr \<lparr>nchannels = 2, sampwidth = 2, framerate = 24000, frames = [255, 63]\<rparr>
   \<and> wav_bytes_to_array \<lparr>nchannels = 2, sampwidth = 2, framerate = 24000, frames = [255, 63]\<rparr>
     = Inr (Floats Float32 [], 24000)
   \<and> array_to_wav_bytes (default_audio_config\<lparr>sample_rate := 2147483648\<rparr>)
        (Floats Float32 [Fin (1 / 2)])
     = Inl (Exc AudioError ''Failed to convert array to WAV'')
   \<and> array_to_wav_bytes default_audio_config (Floats Float32 (replicate 2147483630 (Fin 0)))
     = Inl (Exc AudioError ''Failed to convert array to WAV'')"
proof -
  have empty: "array_to_wav_bytes default_audio_config (Floats Float32 [])
      = Inl (Exc AudioError ''Failed to convert array to WAV'')"
    by (simp add: array_to_wav_bytes_def np_max_def)
  have two: "array_to_wav_bytes (default_audio_config\<lparr>num_channels := 2\<rparr>)
        (Floats Float32 [Fin (1 / 2)])
      = Inr \<lparr>nchannels = 2, sampwidth = 2, framerate = 24000, frames = [255, 63]\<rparr>"
    by (simp add: array_to_wav_bytes_def np_max_def default_audio_config_def wave_write_def
        times_32767_def astype_int16_def round_toward_zero_def fround_eval
        tobytes_def int16_bytes_def)
  have reread: "wav_bytes_to_array
        \<lparr>nchannels = 2, sampwidth = 2, framerate = 24000, frames = [255, 63]\<rparr>
      = Inr (Floats Float32 [], 24000)"
    by (simp add: wav_bytes_to_array_def wave_read_def getnframes_def readframes_def
        frombuffer_def)
  have rate: "array_to_wav_bytes (default_audio_config\<lparr>sample_rate := 2147483648\<rparr>)
        (Floats Float32 [Fin (1 / 2)])
      = Inl (Exc AudioError ''Failed to convert array to WAV'')"
    by (simp add: array_to_wav_bytes_def np_max_def default_audio_config_def wave_write_def
        times_32767_def astype_int16_def round_toward_zero_def fround_eval
        tobytes_def int16_bytes_def)
  have "4294967295 < 36 + 2 * int (len (Floats Float32 (replicate 2147483630 (Fin 0))))"
    by (simp only: len.simps length_replicate)
  then have long: "array_to_wav_bytes default_audio_config
        (Floats Float32 (replicate 2147483630 (Fin 0)))
      = Inl (Exc AudioError ''Failed to convert array to WAV'')"
    by (rule array_too_long)
  from empty two reread rate long show ?thesis by (intro conjI)
qed

text \<open>
  Claim C8, amended. Take a configuration that the WAV header can hold (at least one
  channel, a sample width of 1 to 4 bytes, a positive sample rate, a frame size that fits
  16 bits and a byte rate that fits 32 bits) and a non-empty array of finite floats, of
  either precision, with all absolute values at most 1, whose \<open>2 * len\<close> bytes of data
  are a whole number of frames and fit the 32-bit length of the file. Then the array is
  written, and reading the bytes back returns the configured sample rate and a float32
  array of the same length. Every sample read back is the int16 sample written for the
  input sample, divided by 32767 in float32; it differs from the input sample by less
  than \<open>1 / 32767 + 1 / 2^22\<close>: the step of the quantisation and the float32 roundings.
\<close>

theorem wav_round_trip:
  assumes ch: "1 \<le> num_channels config"
    and width: "1 \<le> bits_per_sample config div 8" "bits_per_sample config div 8 \<le> 4"
    and rate: "0 < sample_rate config"
    and frame: "num_channels config * (bits_per_sample config div 8) \<le> 65535"
    and byte_rate:
      "num_channels config * sample_rate config * (bits_per_sample config div 8) \<le> 4294967295"
    and size: "36 + 2 * int (length rs) \<le> 4294967295"
    and whole: "nat (num_channels config) * nat (bits_per_sample config div 8) dvd 2 * length rs"
    and ne: "rs \<noteq> []"
    and unit: "\<forall>x \<in> set rs. \<bar>x\<bar> \<le> 1"
  shows "\<exists>wav_bytes a'.
           array_to_wav_bytes config (Floats f (map Fin rs)) = Inr wav_bytes
         \<and> wav_bytes_to_array wav_bytes = Inr (Floats Float32 (map Fin a'), sample_rate config)
         \<and> length a' = length rs
         \<and> map Fin a'
             = map (\<lambda>x. fdiv Float32 x (Fin 32767))
                 (astype_float32 (Int16s
                    (to_pcm16 (Floats Float32 (astype_float32 (Floats f (map Fin rs)))))))
         \<and> (\<forall>i < length rs. \<bar>a' ! i - rs ! i\<bar> < 1 / 32767 + 1 / 2 ^ 22)"
proof -
  define nch where "nch = num_channels config"
  define w where "w = bits_per_sample config div 8"
  obtain xs where xs: "astype_float32 (Floats f (map Fin rs)) = map Fin xs"
    and near: "list_all2 (\<lambda>y x. \<bar>y\<bar> \<le> 1 \<and> \<bar>y - x\<bar> \<le> 1 / 2 ^ 24) xs rs"
    using astype_float32_unit [OF unit] by blast
  have len: "length xs = length rs" using near by (rule list_all2_lengthD)
  have xs_ne: "xs \<noteq> []" using len ne by auto
  have xs_unit: "\<forall>y \<in> set xs. \<bar>y\<bar> \<le> 1"
    using near by (auto simp: list_all2_conv_all_nth in_set_conv_nth)
  define pcm where "pcm = to_pcm16 (Floats Float32 (map Fin xs))"
  have pcm_len: "length pcm = length rs" by (simp add: pcm_def len)
  define wav_bytes where
    "wav_bytes = \<lparr>nchannels = nat nch, sampwidth = nat w, framerate = sample_rate config,
                   frames = tobytes pcm\<rparr>"
  have peak: "np_max (map np_abs (map Fin xs)) = Inr (Fin (Max (set (map abs xs))))"
    using xs_ne by (rule np_max_finite)
  have "\<exists>y \<in> set xs. \<bar>y\<bar> = Max (set (map abs xs))" using xs_ne by (rule abs_max_bounds)
  then have low: "\<not> 1 < Max (set (map abs xs))" using xs_unit by force
  have "nch * 1 \<le> nch * w" using ch width(1) unfolding nch_def w_def
    by (intro mult_left_mono) simp_all
  then have nch_fits: "nch \<le> 65535" using frame unfolding nch_def w_def by simp
  have "1 * sample_rate config \<le> nch * sample_rate config"
    using ch rate unfolding nch_def by (intro mult_right_mono) simp_all
  moreover have "nch * sample_rate config * 1 \<le> nch * sample_rate config * w"
    using ch rate width(1) unfolding nch_def w_def by (intro mult_left_mono) simp_all
  ultimately have rate_fits: "sample_rate config \<le> 4294967295"
    using byte_rate unfolding nch_def w_def by simp
  have written: "wave_write nch w (sample_rate config) (tobytes pcm) = Inr wav_bytes"
    using ch width rate frame byte_rate size nch_fits rate_fits
    unfolding wave_write_def wav_bytes_def nch_def [symmetric] w_def [symmetric]
    by (simp add: tobytes_length pcm_len)
  have wr: "array_to_wav_bytes config (Floats f (map Fin rs)) = Inr wav_bytes"
    unfolding array_to_wav_bytes_def xs Let_def peak
    using low written
    by (simp add: pcm_def nch_def w_def del: to_pcm16.simps)
  have "nat nch * nat w dvd length (tobytes pcm)"
    using whole by (simp add: tobytes_length pcm_len nch_def w_def)
  then have "length (tobytes pcm) div (nat nch * nat w) * (nat nch * nat w) = length (tobytes pcm)"
    by (rule dvd_div_mult_self)
  then have all: "readframes wav_bytes (getnframes wav_bytes) = tobytes pcm"
    by (simp add: readframes_def getnframes_def wav_bytes_def)
  have rd: "wave_read wav_bytes = Inr wav_bytes"
    using ch width(1) by (simp add: wave_read_def wav_bytes_def nch_def w_def)
  have each: "\<forall>y \<in> set xs. \<exists>z.
      fdiv Float32 (Fin (real_of_int (sint (astype_int16 (times_32767 Float32 (Fin y))))))
        (Fin 32767) = Fin z \<and> \<bar>z - y\<bar> < 1 / 32767 + 1 / 2 ^ 23"
    using xs_unit sample_round_trip by blast
  have "\<exists>a'. map (\<lambda>w. fdiv Float32 (Fin (real_of_int (sint w))) (Fin 32767))
                (to_pcm16 (Floats Float32 (map Fin xs))) = map Fin a'
            \<and> list_all2 (\<lambda>z y. \<bar>z - y\<bar> < 1 / 32767 + 1 / 2 ^ 23) a' xs"
    using each
  proof (induction xs)
    case Nil
    then show ?case by simp
  next
    case (Cons y ys)
    then obtain a' where a':
      "map (\<lambda>w. fdiv Float32 (Fin (real_of_int (sint w))) (Fin 32767))
         (to_pcm16 (Floats Float32 (map Fin ys))) = map Fin a'"
      "list_all2 (\<lambda>z y. \<bar>z - y\<bar> < 1 / 32767 + 1 / 2 ^ 23) a' ys"
      by auto
    from Cons.prems obtain z where z:
      "fdiv Float32 (Fin (real_of_int (sint (astype_int16 (times_32767 Float32 (Fin y))))))
         (Fin 32767) = Fin z" "\<bar>z - y\<bar> < 1 / 32767 + 1 / 2 ^ 23"
      by auto
    show ?case using a' z by (intro exI [of _ "z # a'"]) simp
  qed
  then obtain a' where a': "map (\<lambda>w. fdiv Float32 (Fin (real_of_int (sint w))) (Fin 32767)) pcm
        = map Fin a'"
    and close: "list_all2 (\<lambda>z y. \<bar>z - y\<bar> < 1 / 32767 + 1 / 2 ^ 23) a' xs"
    unfolding pcm_def by blast
  have alen: "length a' = length rs" using close len by (simp add: list_all2_lengthD)
  have r: "wav_bytes_to_array wav_bytes = Inr (Floats Float32 (map Fin a'), sample_rate config)"
    unfolding wav_bytes_to_array_def rd
    by (simp add: all frombuffer_tobytes a' [symmetric] comp_def) (simp add: wav_bytes_def)
  have bound: "\<forall>i < length rs. \<bar>a' ! i - rs ! i\<bar> < 1 / 32767 + 1 / 2 ^ 22"
  proof (intro allI impI)
    fix i assume i: "i < length rs"
    have "\<bar>a' ! i - xs ! i\<bar> < 1 / 32767 + 1 / 2 ^ 23"
      using close i len by (simp add: list_all2_conv_all_nth)
    moreover have "\<bar>xs ! i - rs ! i\<bar> \<le> 1 / 2 ^ 24"
      using near i by (simp add: list_all2_conv_all_nth)
    ultimately have "\<bar>a' ! i - rs ! i\<bar> < 1 / 32767 + 1 / 2 ^ 23 + 1 / 2 ^ 24" by linarith
    also have "\<dots> \<le> 1 / 32767 + 1 / 2 ^ 22" by simp
    finally show "\<bar>a' ! i - rs ! i\<bar> < 1 / 32767 + 1 / 2 ^ 22" .
  qed
  have form: "map Fin a'
      = map (\<lambda>x. fdiv Float32 x (Fin 32767))
          (astype_float32 (Int16s
             (to_pcm16 (Floats Float32 (astype_float32 (Floats f (map Fin rs)))))))"
    unfolding xs pcm_def [symmetric] a' [symmetric] by (simp add: comp_def)
  from wr r alen form bound show ?thesis by blast
qed

theorem wav_round_trip_witness:
  "1 \<le> num_channels default_audio_config
   \<and> bits_per_sample default_audio_config div 8 = 2
   \<and> 0 < sample_rate default_audio_config
   \<and> num_channels default_audio_config * sample_rate default_audio_config
         * (bits_per_sample default_audio_config div 8) \<le> 4294967295
   \<and> nat (num_channels default_audio_config) * nat (bits_per_sample default_audio_config div 8)
         dvd 2 * length [1 / 2, - (1 / 4), 1 :: real]
   \<and> \<bar>1 / 2 :: real\<bar> \<le> 1 \<and> \<bar>- (1 / 4) :: real\<bar> \<le> 1 \<and> \<bar>1 :: real\<bar> \<le> 1
   \<and> array_to_wav_bytes default_audio_config (Floats Float64 [Fin (1 / 2), Fin (- (1 / 4)), Fin 1])
       = Inr \<lparr>nchannels = 1, sampwidth = 2, framerate = 24000,
              frames = [255, 63, 1, 224, 255, 127]\<rparr>
   \<and> wav_bytes_to_array \<lparr>nchannels = 1, sampwidth = 2, framerate = 24000,
                           frames = [255, 63, 1, 224, 255, 127]\<rparr>
       = Inr (Floats Float32 [Fin (32767 / 65536), Fin (- (32765 / 131072)), Fin 1], 24000)"
proof -
  have ch: "1 \<le> num_channels default_audio_config"
    and width: "1 \<le> bits_per_sample default_audio_config div 8"
      "bits_per_sample default_audio_config div 8 \<le> 4"
    and width2: "bits_per_sample default_audio_config div 8 = 2"
    and rate: "0 < sample_rate default_audio_config"
    and frame: "num_channels default_audio_config * (bits_per_sample default_audio_config div 8)
        \<le> 65535"
    and byte_rate: "num_channels default_audio_config * sample_rate default_audio_config
        * (bits_per_sample default_audio_config div 8) \<le> 4294967295"
    by (simp_all add: default_audio_config_def)
  have size: "36 + 2 * int (length [1 / 2, - (1 / 4), 1 :: real]) \<le> 4294967295" by simp
  have whole: "nat (num_channels default_audio_config)
      * nat (bits_per_sample default_audio_config div 8) dvd 2 * length [1 / 2, - (1 / 4), 1 :: real]"
    by (simp add: default_audio_config_def)
  have ne: "[1 / 2, - (1 / 4), 1 :: real] \<noteq> []" by simp
  have unit: "\<forall>x \<in> set [1 / 2, - (1 / 4), 1 :: real]. \<bar>x\<bar> \<le> 1" by simp
  from wav_round_trip [where f = Float64, OF ch width rate frame byte_rate size whole ne unit]
  obtain wav_bytes a' where
    w: "array_to_wav_bytes default_audio_config (Floats Float64 (map Fin [1 / 2, - (1 / 4), 1]))
          = Inr wav_bytes"
    and r: "wav_bytes_to_array wav_bytes
          = Inr (Floats Float32 (map Fin a'), sample_rate default_audio_config)"
    and a': "map Fin a'
          = map (\<lambda>x. fdiv Float32 x (Fin 32767))
              (astype_float32 (Int16s
                 (to_pcm16 (Floats Float32
                    (astype_float32 (Floats Float64 (map Fin [1 / 2, - (1 / 4), 1])))))))"
    by blast
  have wb: "wav_bytes = \<lparr>nchannels = 1, sampwidth = 2, framerate = 24000,
                          frames = [255, 63, 1, 224, 255, 127]\<rparr>"
    using w by (simp add: demo_array_to_wav_bytes)
  have "map Fin a' = [Fin (32767 / 65536), Fin (- (32765 / 131072)), Fin 1]"
    unfolding a'
    by (simp add: times_32767_def astype_int16_def round_toward_zero_def fround_eval)
  with r have "wav_bytes_to_array wav_bytes
      = Inr (Floats Float32 [Fin (32767 / 65536), Fin (- (32765 / 131072)), Fin 1], 24000)"
    by (simp add: default_audio_config_def)
  then show ?thesis
    using ch width2 rate byte_rate whole demo_array_to_wav_bytes unfolding wb by simp
qed

section \<open>Normalisation\<close>

lemma sint_abs16:
  assumes "sint w \<noteq> - 32768"
  shows "sint (abs16 w) = \<bar>sint w\<bar>"
proof (cases "sint w < 0")
  case True
  have range: "- 32768 \<le> sint w" "sint w < 32768"
    using sint_ge [of w] sint_lt [of w] by simp_all
  have "sint (- w) = signed_take_bit 15 (- sint w)" by (simp add: sint_word_ariths)
  also have "\<dots> = - sint w"
    using range assms by (intro signed_take_bit_int_eq_self) simp_all
  finally show ?thesis using True by (simp add: abs16_def)
next
  case False
  then show ?thesis by (simp add: abs16_def)
qed

lemma foldl_max16:
  "foldl (\<lambda>a b. if sint a < sint b then b else a) w rest \<in> set (w # rest)
   \<and> (\<forall>x \<in> set (w # rest).
         sint x \<le> sint (foldl (\<lambda>a b :: int16. if sint a < sint b then b else a) w rest))"
proof (induction rest arbitrary: w)
  case Nil
  then show ?case by simp
next
  case (Cons r rest)
  let ?m = "if sint w < sint r then r else w"
  have IH: "foldl (\<lambda>a b. if sint a < sint b then b else a) ?m rest \<in> set (?m # rest)"
    "\<forall>x \<in> set (?m # rest).
       sint x \<le> sint (foldl (\<lambda>a b :: int16. if sint a < sint b then b else a) ?m rest)"
    using Cons.IH [of ?m] by blast+
  have "sint w \<le> sint ?m" "sint r \<le> sint ?m" by simp_all
  moreover have "sint ?m \<le> sint (foldl (\<lambda>a b :: int16. if sint a < sint b then b else a) ?m rest)"
    using IH(2) by simp
  ultimately have "sint w \<le> sint (foldl (\<lambda>a b :: int16. if sint a < sint b then b else a) ?m rest)"
    "sint r \<le> sint (foldl (\<lambda>a b :: int16. if sint a < sint b then b else a) ?m rest)"
    by linarith+
  with IH show ?case by (auto split: if_splits)
qed

lemma np_max16_abs:
  assumes ne: "ws \<noteq> []" and no_min: "\<forall>w \<in> set ws. sint w \<noteq> - 32768"
  shows "\<exists>m. np_max16 (map abs16 ws) = Inr m
           \<and> (\<forall>w \<in> set ws. \<bar>sint w\<bar> \<le> sint m) \<and> (\<exists>w \<in> set ws. \<bar>sint w\<bar> = sint m)"
proof -
  obtain a as where ws: "map abs16 ws = a # as" using ne by (cases ws) auto
  define m where "m = foldl (\<lambda>a b :: int16. if sint a < sint b then b else a) a as"
  have m: "np_max16 (map abs16 ws) = Inr m" by (simp add: np_max16_def ws m_def)
  have "m \<in> set (map abs16 ws)" and ub: "\<forall>x \<in> set (map abs16 ws). sint x \<le> sint m"
    using foldl_max16 [of a as] unfolding ws m_def by blast+
  then obtain w where w: "w \<in> set ws" "m = abs16 w" by auto
  then have "\<bar>sint w\<bar> = sint m" using no_min sint_abs16 by simp
  moreover have "\<forall>w \<in> set ws. \<bar>sint w\<bar> \<le> sint m"
    using ub no_min sint_abs16 by fastforce
  ultimately show ?thesis using m w(1) by blast
qed

text \<open>
  Claim C10 at concrete inputs. \<open>normalize_audio\<close> does not return on the empty array:
  the maximum of an empty array raises, and the function turns that into AudioError. An
  infinite sample is divided by the infinite maximum, which gives NaN. A maximum that is
  NaN is not greater than 0, so an array with a NaN is returned as it is, with its
  samples that are not 0. The absolute value of the int16 sample -32768 is -32768: alone
  it is returned unchanged, and next to smaller samples it is divided by their maximum.
\<close>

theorem normalize_audio_counterexample:
  "normalize_audio (Floats Float32 []) = Inl (Exc AudioError ''Audio normalization failed'')
   \<and> normalize_audio (Floats Float64 [PInf, Fin 1]) = Inr (Floats Float64 [NaN, Fin 0])
   \<and> normalize_audio (Floats Float64 [NaN, Fin 2]) = Inr (Floats Float64 [NaN, Fin 2])
   \<and> normalize_audio (Int16s [- 32768]) = Inr (Int16s [- 32768])
   \<and> normalize_audio (Int16s [- 32768, 2]) = Inr (Floats Float64 [Fin (- 16384), Fin 1])"
  by (simp add: normalize_audio_def np_max_def np_max16_def abs16_def fround_eval)

lemma quotients_unit:
  assumes "\<forall>r \<in> set rs. \<bar>r\<bar> \<le> m" and "0 < m"
  shows "\<exists>ys. map (\<lambda>x. fdiv f x (Fin m)) (map Fin rs) = map Fin ys
            \<and> length ys = length rs \<and> (\<forall>y \<in> set ys. \<bar>y\<bar> \<le> 1)"
  using assms(1)
proof (induction rs)
  case Nil
  then show ?case by simp
next
  case (Cons r rs)
  then obtain ys where ys: "map (\<lambda>x. fdiv f x (Fin m)) (map Fin rs) = map Fin ys"
      "length ys = length rs" "\<forall>y \<in> set ys. \<bar>y\<bar> \<le> 1"
    by auto
  have "\<bar>r\<bar> \<le> m" using Cons.prems by simp
  then have "\<bar>r / m\<bar> \<le> 1" using assms(2) by simp
  then obtain y where y: "fround f (r / m) = Fin y" "\<bar>y\<bar> \<le> 1"
    using fround_unit by blast
  have "fdiv f (Fin r) (Fin m) = Fin y" using assms(2) y(1) by simp
  with ys y(2) show ?case by (intro exI [of _ "y # ys"]) simp
qed

text \<open>
  Claim C10, amended. On a non-empty array of finite floats, of either precision,
  \<open>normalize_audio\<close> returns: the input itself when all samples are zero, and otherwise
  the input divided by its maximum absolute value, every quotient rounded to the precision
  of the array. On a non-empty int16 array that does not hold -32768 it returns the input
  itself when all samples are zero, and otherwise the float64 array of the samples divided
  by their maximum absolute value. In every case the samples of the result are finite
  and their absolute values are at most 1.
\<close>

theorem normalize_audio_finite:
  assumes rs: "rs \<noteq> []" and ws: "ws \<noteq> []" and no_min: "\<forall>w \<in> set ws. sint w \<noteq> - 32768"
  shows "normalize_audio (Floats f (map Fin rs))
           = (if \<forall>x \<in> set rs. x = 0 then Inr (Floats f (map Fin rs))
              else Inr (Floats f (map (\<lambda>x. fdiv f x (Fin (Max (set (map abs rs)))))
                                    (map Fin rs))))
       \<and> (\<exists>ys. normalize_audio (Floats f (map Fin rs)) = Inr (Floats f (map Fin ys))
                \<and> length ys = length rs \<and> (\<forall>y \<in> set ys. \<bar>y\<bar> \<le> 1))
       \<and> normalize_audio (Int16s ws)
           = (if \<forall>w \<in> set ws. w = 0 then Inr (Int16s ws)
              else Inr (Floats Float64
                          (map (\<lambda>x. fdiv Float64 x
                                       (Fin (real_of_int (Max (set (map (\<lambda>w. \<bar>sint w\<bar>) ws))))))
                             (map (\<lambda>w. Fin (real_of_int (sint w))) ws))))
       \<and> ((\<forall>w \<in> set ws. w = 0)
            \<or> (\<exists>ys. normalize_audio (Int16s ws) = Inr (Floats Float64 (map Fin ys))
                  \<and> length ys = length ws \<and> (\<forall>y \<in> set ys. \<bar>y\<bar> \<le> 1)))"
proof -
  define m where "m = Max (set (map abs rs))"
  have peak: "np_max (map np_abs (map Fin rs)) = Inr (Fin m)"
    unfolding m_def using rs by (rule np_max_finite)
  have m: "0 \<le> m" "\<forall>x \<in> set rs. \<bar>x\<bar> \<le> m" "\<exists>x \<in> set rs. \<bar>x\<bar> = m"
    unfolding m_def using abs_max_bounds [OF rs] by blast+
  have floats: "normalize_audio (Floats f (map Fin rs))
           = (if \<forall>x \<in> set rs. x = 0 then Inr (Floats f (map Fin rs))
              else Inr (Floats f (map (\<lambda>x. fdiv f x (Fin m)) (map Fin rs))))
       \<and> (\<exists>ys. normalize_audio (Floats f (map Fin rs)) = Inr (Floats f (map Fin ys))
                \<and> length ys = length rs \<and> (\<forall>y \<in> set ys. \<bar>y\<bar> \<le> 1))"
  proof (cases "\<forall>x \<in> set rs. x = 0")
    case True
    then have "m = 0" using m(3) by auto
    then have eq: "normalize_audio (Floats f (map Fin rs)) = Inr (Floats f (map Fin rs))"
      using peak by (simp add: normalize_audio_def)
    moreover have "\<forall>y \<in> set rs. \<bar>y\<bar> \<le> 1" using True by auto
    ultimately show ?thesis using True by auto
  next
    case False
    then obtain x where "x \<in> set rs" "x \<noteq> 0" by blast
    then have pos: "0 < m" using m(2) by fastforce
    then have eq: "normalize_audio (Floats f (map Fin rs))
        = Inr (Floats f (map (\<lambda>x. fdiv f x (Fin m)) (map Fin rs)))"
      using peak by (simp add: normalize_audio_def)
    obtain ys where "map (\<lambda>x. fdiv f x (Fin m)) (map Fin rs) = map Fin ys"
        "length ys = length rs" "\<forall>y \<in> set ys. \<bar>y\<bar> \<le> 1"
      using quotients_unit [OF m(2) pos] by blast
    with eq False show ?thesis by auto
  qed
  obtain mw where mw: "np_max16 (map abs16 ws) = Inr mw"
      "\<forall>w \<in> set ws. \<bar>sint w\<bar> \<le> sint mw" "\<exists>w \<in> set ws. \<bar>sint w\<bar> = sint mw"
    using np_max16_abs [OF ws no_min] by blast
  have "sint mw \<in> set (map (\<lambda>w. \<bar>sint w\<bar>) ws)" using mw(3) by force
  then have "Max (set (map (\<lambda>w. \<bar>sint w\<bar>) ws)) = sint mw"
    using mw(2) by (intro Max_eqI) auto
  then have M: "sint mw = Max (set (map (\<lambda>w. \<bar>sint w\<bar>) ws))" by simp
  have ints: "normalize_audio (Int16s ws)
           = (if \<forall>w \<in> set ws. w = 0 then Inr (Int16s ws)
              else Inr (Floats Float64
                          (map (\<lambda>x. fdiv Float64 x (Fin (real_of_int (sint mw))))
                             (map (\<lambda>w. Fin (real_of_int (sint w))) ws))))
       \<and> ((\<forall>w \<in> set ws. w = 0)
            \<or> (\<exists>ys. normalize_audio (Int16s ws) = Inr (Floats Float64 (map Fin ys))
                  \<and> length ys = length ws \<and> (\<forall>y \<in> set ys. \<bar>y\<bar> \<le> 1)))"
  proof (cases "\<forall>w \<in> set ws. w = 0")
    case True
    then have "sint mw = 0" using mw(3) by auto
    then have "normalize_audio (Int16s ws) = Inr (Int16s ws)"
      using mw(1) by (simp add: normalize_audio_def)
    with True show ?thesis by simp
  next
    case False
    then obtain w where w: "w \<in> set ws" "w \<noteq> 0" by blast
    have "sint w \<noteq> 0"
    proof
      assume "sint w = 0"
      then have "word_of_int (sint w) = (0 :: int16)" by simp
      then show False using w(2) by simp
    qed
    then have "0 < \<bar>sint w\<bar>" by simp
    then have pos: "0 < sint mw" using mw(2) w(1) by fastforce
    then have eq: "normalize_audio (Int16s ws)
        = Inr (Floats Float64
                 (map (\<lambda>x. fdiv Float64 x (Fin (real_of_int (sint mw))))
                    (map (\<lambda>w. Fin (real_of_int (sint w))) ws)))"
      using mw(1) by (simp add: normalize_audio_def)
    have b: "\<forall>r \<in> set (map (\<lambda>w. real_of_int (sint w)) ws). \<bar>r\<bar> \<le> real_of_int (sint mw)"
    proof
      fix r assume "r \<in> set (map (\<lambda>w. real_of_int (sint w)) ws)"
      then obtain v where v: "v \<in> set ws" "r = real_of_int (sint v)" by auto
      then have "\<bar>sint v\<bar> \<le> sint mw" using mw(2) by simp
      then show "\<bar>r\<bar> \<le> real_of_int (sint mw)" unfolding v(2) by linarith
    qed
    have p: "0 < real_of_int (sint mw)" using pos by (simp only: of_int_0_less_iff)
    obtain ys where ys: "map (\<lambda>x. fdiv Float64 x (Fin (real_of_int (sint mw))))
          (map Fin (map (\<lambda>w. real_of_int (sint w)) ws)) = map Fin ys"
        "length ys = length (map (\<lambda>w. real_of_int (sint w)) ws)" "\<forall>y \<in> set ys. \<bar>y\<bar> \<le> 1"
      using quotients_unit [OF b p] by blast
    have "map (\<lambda>w. Fin (real_of_int (sint w))) ws = map Fin (map (\<lambda>w. real_of_int (sint w)) ws)"
      by simp
    then have "normalize_audio (Int16s ws) = Inr (Floats Float64 (map Fin ys))"
      using eq ys(1) by (simp only:)
    moreover have "length ys = length ws" using ys(2) by simp
    ultimately show ?thesis using eq False ys(3) by auto
  qed
  from floats ints show ?thesis unfolding m_def M by (intro conjI) blast+
qed

theorem normalize_audio_finite_witness:
  "[1 / 2, - 2, 1 :: real] \<noteq> [] \<and> [100, - 200 :: int16] \<noteq> []
   \<and> sint (100 :: int16) \<noteq> - 32768 \<and> sint (- 200 :: int16) \<noteq> - 32768
   \<and> normalize_audio (Floats Float32 [Fin (1 / 2), Fin (- 2), Fin 1])
       = Inr (Floats Float32 [Fin (1 / 4), Fin (- 1), Fin (1 / 2)])
   \<and> normalize_audio (Int16s [100, - 200]) = Inr (Floats Float64 [Fin (1 / 2), Fin (- 1)])"
proof -
  have rs: "[1 / 2, - 2, 1 :: real] \<noteq> []" and ws: "[100, - 200 :: int16] \<noteq> []" by simp_all
  have no_min: "\<forall>w \<in> set [100, - 200 :: int16]. sint w \<noteq> - 32768" by simp
  note both = normalize_audio_finite [where f = Float32, OF rs ws no_min]
  have "normalize_audio (Floats Float32 (map Fin [1 / 2, - 2, 1]))
          = (if \<forall>x \<in> set [1 / 2, - 2, 1 :: real]. x = 0
             then Inr (Floats Float32 (map Fin [1 / 2, - 2, 1]))
             else Inr (Floats Float32
                         (map (\<lambda>x. fdiv Float32 x (Fin (Max (set (map abs [1 / 2, - 2, 1])))))
                            (map Fin [1 / 2, - 2, 1]))))"
    using both by (rule conjunct1)
  moreover have "normalize_audio (Int16s [100, - 200])
          = (if \<forall>w \<in> set [100, - 200 :: int16]. w = 0 then Inr (Int16s [100, - 200])
             else Inr (Floats Float64
                         (map (\<lambda>x. fdiv Float64 x
                                 (Fin (real_of_int
                                    (Max (set (map (\<lambda>w. \<bar>sint w\<bar>) [100, - 200 :: int16]))))))
                            (map (\<lambda>w. Fin (real_of_int (sint w))) [100, - 200 :: int16]))))"
    using both by (rule conjunct1 [OF conjunct2 [OF conjunct2]])
  ultimately have "normalize_audio (Floats Float32 [Fin (1 / 2), Fin (- 2), Fin 1])
       = Inr (Floats Float32 [Fin (1 / 4), Fin (- 1), Fin (1 / 2)])"
    and "normalize_audio (Int16s [100, - 200]) = Inr (Floats Float64 [Fin (1 / 2), Fin (- 1)])"
    by (simp_all add: fround_eval)
  then show ?thesis by simp
qed


section \<open>Streaming on one session\<close>

lemma deliver_nil: "deliver r [] w = w"
  by (simp add: deliver_def set_socket_def)

lemma deliver_deliver: "deliver r gs (deliver r fs w) = deliver r (fs @ gs) w"
  by (simp add: deliver_def set_socket_def)

lemma deliver_streams: "streams (deliver r fs w) = streams w"
  by (simp add: deliver_def set_socket_def)

lemma deliver_state:
  "application_state (sockets (deliver r fs w) r') = application_state (sockets w r')"
  by (simp add: deliver_def set_socket_def)

lemma deliver_outbox: "outbox (sockets (deliver r fs w) r) = outbox (sockets w r) @ fs"
  by (simp add: deliver_def set_socket_def)

lemma send_json_quietly_connected:
  "application_state (sockets w r) = CONNECTED \<Longrightarrow> send_json_quietly f r w = deliver r [f] w"
  by (simp add: send_json_quietly_def ws_send_if deliver_def)

lemma send_chunks_inactive:
  "\<not> active (streams w a) \<Longrightarrow> send_chunks a chunks w = (Inr (), w)"
  by (cases chunks) simp_all

lemma send_chunks_active:
  assumes "active (streams w a)" and "application_state (socket_of w a) = CONNECTED"
  shows "send_chunks a chunks w
         = (Inr (), deliver (websocket_ref (streams w a)) (map Bytes chunks) w)"
  using assms
proof (induction chunks arbitrary: w)
  case Nil
  then show ?case by (simp add: deliver_nil)
next
  case (Cons c chunks)
  let ?r = "websocket_ref (streams w a)"
  let ?w1 = "deliver ?r [Bytes c] w"
  have s: "ws_send (Bytes c) (socket_of w a)
      = Inr ((sockets w ?r)\<lparr>outbox := outbox (sockets w ?r) @ [Bytes c]\<rparr>)"
    using Cons.prems by (simp add: ws_send_if socket_of_def)
  have a1: "active (streams ?w1 a)" using Cons.prems by (simp add: deliver_streams)
  have c1: "application_state (socket_of ?w1 a) = CONNECTED"
    using Cons.prems by (simp add: socket_of_def deliver_streams deliver_state)
  have "send_chunks a (c # chunks) w = send_chunks a chunks ?w1"
    using Cons.prems s by (simp add: deliver_def)
  also have "\<dots> = (Inr (), deliver (websocket_ref (streams ?w1 a)) (map Bytes chunks) ?w1)"
    by (rule Cons.IH [OF a1 c1])
  also have "\<dots> = (Inr (), deliver ?r (map Bytes (c # chunks)) w)"
    by (simp add: deliver_streams deliver_deliver)
  finally show ?case .
qed

lemma send_end_marker_active:
  assumes "active (streams w a)" and "application_state (socket_of w a) = CONNECTED"
  shows "send_end_marker a w = (Inr (), deliver (websocket_ref (streams w a)) [end_frame] w)"
  using assms by (simp add: send_end_marker_def ws_send_if socket_of_def deliver_def)

lemma stream_close_outbox: "outbox (sockets (stream_close a w) r) = outbox (sockets w r)"
  by (simp add: stream_close_def Let_def set_stream_def set_socket_def socket_of_def ws_close_if)

lemma stream_close_inactive: "\<not> active (streams (stream_close a w) a)"
  by (simp add: stream_close_def Let_def set_stream_def set_socket_def socket_of_def ws_close_if)

lemma stream_close_websocket_ref:
  "websocket_ref (streams (stream_close a w) a') = websocket_ref (streams w a')"
  by (simp add: stream_close_def Let_def set_stream_def set_socket_def socket_of_def ws_close_if)

lemma stream_close_disconnected:
  "application_state (sockets (stream_close a w) (websocket_ref (streams w a))) = DISCONNECTED"
  by (simp add: stream_close_def Let_def set_stream_def set_socket_def socket_of_def ws_close_if)

lemma send_json_quietly_disconnected:
  "application_state (sockets w r) = DISCONNECTED \<Longrightarrow> send_json_quietly f r w = w"
  by (simp add: send_json_quietly_def ws_send_if)

lemma demo_session:
  "handler_initialize (fst (new_handler 0 empty_world)) (snd (new_handler 0 empty_world))
     = (Inr (), demo_handler, demo_world)"
  by (simp add: handler_initialize_def new_handler_def empty_world_def create_stream_def
      new_audio_stream_def stream_initialize_def set_stream_def set_socket_def socket_of_def
      ws_accept_if fresh_socket_def dict_set_def demo_handler_def demo_world_def
      demo_stream_object_def Let_def)

lemma demo_world_sel:
  "streams demo_world 11 = demo_stream_object"
  "sockets demo_world 0 = \<lparr>application_state = CONNECTED, outbox = []\<rparr>"
  "socket_of demo_world 11 = \<lparr>application_state = CONNECTED, outbox = []\<rparr>"
  by (simp_all add: demo_world_def socket_of_def demo_stream_object_def)

lemma demo_env_stream:
  "generate_speech_stream (the_tts_model demo_env) (JStr ''hello'') (JStr ''default'') 1 ''en''
     (Some (CHUNK_SIZE (the_settings demo_env))) = Inr [[255, 63, 1, 224], [255, 127, 0, 0]]"
  by (simp add: demo_env_def demo_settings_def demo_stream)

lemma failing_env_speech:
  "generate_speech (the_tts_model failing_env) txt voice speed ''en''
     = Inl (Exc ModelError ''Speech generation failed'')"
  by (simp add: failing_env_def generate_speech_def ensure_initialized_def failing_model_def
      failing_engine_def)

text \<open>
  Claim C9. A stream whose active flag is false, as \<open>stream_close\<close> leaves it, sends
  nothing in \<open>stream_audio\<close>: the frames handed to every socket are the same after the
  call as before, whether the engine produces chunks or fails, and the stream is still
  inactive afterwards, so the same holds for every later call.
\<close>

theorem closed_stream_sends_nothing:
  assumes "\<not> active (streams w a)"
  shows "(\<forall>r. outbox (sockets (snd (stream_audio ev a txt voice speed w)) r) = outbox (sockets w r))
       \<and> \<not> active (streams (snd (stream_audio ev a txt voice speed w)) a)"
proof (cases "generate_speech_stream (the_tts_model ev) txt voice speed ''en''
                (Some (CHUNK_SIZE (the_settings ev)))")
  case (Inl e)
  then have "stream_audio ev a txt voice speed w
      = (Inl (Exc WebSocketError ''Audio streaming failed''), stream_close a w)"
    by (simp add: stream_audio_def stream_body_def)
  then show ?thesis by (simp add: stream_close_outbox stream_close_inactive)
next
  case (Inr chunks)
  then have "stream_audio ev a txt voice speed w = (Inr (), w)"
    using assms
    by (simp add: stream_audio_def stream_body_def send_chunks_inactive send_end_marker_def)
  then show ?thesis using assms by simp
qed

theorem closed_stream_sends_nothing_witness:
  "\<not> active (streams (stream_close 11 demo_world) 11)
   \<and> outbox (sockets (snd (stream_audio demo_env 11 (JStr ''hello'') (JStr ''default'') 1
                            (stream_close 11 demo_world))) 0) = []
   \<and> \<not> active (streams (snd (stream_audio demo_env 11 (JStr ''hello'') (JStr ''default'') 1
                            (stream_close 11 demo_world))) 11)"
proof -
  have closed: "\<not> active (streams (stream_close 11 demo_world) 11)"
    by (rule stream_close_inactive)
  have "outbox (sockets (stream_close 11 demo_world) 0) = []"
    by (simp add: stream_close_outbox demo_world_sel)
  with closed_stream_sends_nothing [OF closed, of demo_env "JStr ''hello''" "JStr ''default''" 1]
    closed
  show ?thesis by (simp)
qed

text \<open>
  Claim C5. When the stream is active, its transport is connected and the generator
  yields the chunks \<open>chunks\<close>, \<open>stream_audio\<close> returns normally and the frames it has
  sent are the chunks as binary frames, in the generator's order, followed by one end
  marker; nothing else in the state changes.
\<close>

theorem stream_audio_in_order:
  assumes act: "active (streams w a)"
    and conn: "application_state (socket_of w a) = CONNECTED"
    and gen: "generate_speech_stream (the_tts_model ev) txt voice speed ''en''
                (Some (CHUNK_SIZE (the_settings ev))) = Inr chunks"
  shows "stream_audio ev a txt voice speed w
           = (Inr (), deliver (websocket_ref (streams w a)) (map Bytes chunks @ [end_frame]) w)
       \<and> outbox (socket_of (snd (stream_audio ev a txt voice speed w)) a)
           = outbox (socket_of w a) @ map Bytes chunks @ [end_frame]"
proof -
  let ?r = "websocket_ref (streams w a)"
  let ?w1 = "deliver ?r (map Bytes chunks) w"
  have sc: "send_chunks a chunks w = (Inr (), ?w1)"
    by (rule send_chunks_active [OF act conn])
  have a1: "active (streams ?w1 a)" using act by (simp add: deliver_streams)
  have c1: "application_state (socket_of ?w1 a) = CONNECTED"
    using conn by (simp add: socket_of_def deliver_state deliver_streams)
  have "send_end_marker a ?w1 = (Inr (), deliver (websocket_ref (streams ?w1 a)) [end_frame] ?w1)"
    by (rule send_end_marker_active [OF a1 c1])
  then have "send_end_marker a ?w1 = (Inr (), deliver ?r (map Bytes chunks @ [end_frame]) w)"
    by (simp add: deliver_deliver deliver_streams)
  then have run: "stream_audio ev a txt voice speed w
      = (Inr (), deliver ?r (map Bytes chunks @ [end_frame]) w)"
    using gen sc by (simp add: stream_audio_def stream_body_def)
  then show ?thesis
    by (simp add: socket_of_def deliver_streams deliver_outbox)
qed

theorem stream_audio_in_order_witness:
  "active (streams demo_world 11)
   \<and> application_state (socket_of demo_world 11) = CONNECTED
   \<and> generate_speech_stream (the_tts_model demo_env) (JStr ''hello'') (JStr ''default'') 1 ''en''
       (Some (CHUNK_SIZE (the_settings demo_env))) = Inr [[255, 63, 1, 224], [255, 127, 0, 0]]
   \<and> outbox (socket_of (snd (stream_audio demo_env 11 (JStr ''hello'') (JStr ''default'') 1
                               demo_world)) 11)
       = [Bytes [255, 63, 1, 224], Bytes [255, 127, 0, 0], end_frame]"
proof -
  have act: "active (streams demo_world 11)"
    by (simp add: demo_world_sel demo_stream_object_def)
  have conn: "application_state (socket_of demo_world 11) = CONNECTED"
    by (simp add: demo_world_sel)
  have "outbox (socket_of (snd (stream_audio demo_env 11 (JStr ''hello'') (JStr ''default'') 1
                               demo_world)) 11)
      = outbox (socket_of demo_world 11)
        @ map Bytes [[255, 63, 1, 224], [255, 127, 0, 0]] @ [end_frame]"
    using stream_audio_in_order [OF act conn demo_env_stream] by (rule conjunct2)
  then have "outbox (socket_of (snd (stream_audio demo_env 11 (JStr ''hello'') (JStr ''default'') 1
                               demo_world)) 11)
      = [Bytes [255, 63, 1, 224], Bytes [255, 127, 0, 0], end_frame]"
    by (simp add: demo_world_sel)
  with act conn demo_env_stream show ?thesis by simp
qed

section \<open>Failures and stop requests\<close>

lemma generate_speech_stream_fails:
  assumes "generate_speech m txt voice speed language = Inl e"
  shows "\<exists>e'. generate_speech_stream m txt voice speed language chunk_size = Inl e'"
  by (simp add: generate_speech_stream_def assms Let_def split: sum.splits option.splits)

lemma stream_audio_fails:
  assumes "generate_speech (the_tts_model ev) txt voice speed ''en'' = Inl e"
  shows "stream_audio ev a txt voice speed w
         = (Inl (Exc WebSocketError ''Audio streaming failed''), stream_close a w)"
proof -
  obtain e' where "generate_speech_stream (the_tts_model ev) txt voice speed ''en''
      (Some (CHUNK_SIZE (the_settings ev))) = Inl e'"
    using generate_speech_stream_fails [OF assms] by blast
  then show ?thesis by (simp add: stream_audio_def stream_body_def)
qed

lemma send_after_close:
  assumes "websocket_ref (streams w a) = h_websocket h"
  shows "send_json_quietly f (h_websocket h) (stream_close a w) = stream_close a w"
proof -
  have "application_state (sockets (stream_close a w) (h_websocket h)) = DISCONNECTED"
    using stream_close_disconnected [of a w] assms by simp
  then show ?thesis by (rule send_json_quietly_disconnected)
qed

lemma demo_handle_failed_synthesis:
  "handle_message failing_env synthesize_hello demo_handler demo_world
     = (demo_handler\<lparr>tasks := tasks demo_handler
          @ [(Synthesis, Failed (Exc WebSocketError ''Audio streaming failed''))]\<rparr>,
        stream_close 11 demo_world)"
proof -
  have wired: "websocket_ref (streams demo_world 11) = h_websocket demo_handler"
    by (simp add: demo_world_sel demo_stream_object_def demo_handler_def)
  have "stream_audio failing_env 11 (JStr ''hello'') (JStr ''default'') 1 demo_world
      = (Inl (Exc WebSocketError ''Audio streaming failed''), stream_close 11 demo_world)"
    by (rule stream_audio_fails [OF failing_env_speech])
  moreover have "h_stream demo_handler = Some 11" by (simp add: demo_handler_def)
  ultimately show ?thesis
    by (simp add: handle_message_def synthesize_hello_def handle_synthesis_def
        synthesis_request_def send_error_def send_after_close [OF wired])
qed

lemma demo_closed_world:
  "active (streams (stream_close 11 demo_world) 11) = False"
  "application_state (sockets (stream_close 11 demo_world) 0) = DISCONNECTED"
  "outbox (sockets (stream_close 11 demo_world) 0) = []"
proof -
  show "active (streams (stream_close 11 demo_world) 11) = False"
    by (simp add: stream_close_inactive)
  have "websocket_ref (streams demo_world 11) = 0"
    by (simp add: demo_world_sel demo_stream_object_def)
  then show "application_state (sockets (stream_close 11 demo_world) 0) = DISCONNECTED"
    using stream_close_disconnected [of 11 demo_world] by simp
  show "outbox (sockets (stream_close 11 demo_world) 0) = []"
    by (simp add: stream_close_outbox demo_world_sel)
qed

lemma request_errors_delivered:
  assumes kind: "py_get message ''type'' JNull = Inr (JStr ''synthesize'')"
    and wired: "h_stream h = Some a"
    and field: "py_get message ''text'' JNull = Inr txt"
    and conn: "application_state (sockets w (h_websocket h)) = CONNECTED"
  shows "\<not> truthy txt \<Longrightarrow>
           handle_message ev message h w
             = (h, deliver (h_websocket h) [message_frame ''error'' ''No text provided''] w)"
    and "truthy txt \<Longrightarrow> synthesis_request ev message txt = Inl e \<Longrightarrow>
           handle_message ev message h w
             = (h, deliver (h_websocket h) [message_frame ''error'' ''Synthesis failed''] w)"
  using assms
  by (simp_all add: handle_message_def handle_synthesis_def send_error_def
      send_json_quietly_connected)

text \<open>
  The other failures of \<open>_handle_synthesis\<close> answer with one error message and leave the
  session as it is: a request without text, here on the session that has just been set
  up, appends the error frame to the transport, which stays connected, and the stream
  stays active.
\<close>

lemma demo_missing_text:
  "handle_message failing_env (JDict [(''type'', JStr ''synthesize'')]) demo_handler demo_world
     = (demo_handler, deliver 0 [message_frame ''error'' ''No text provided''] demo_world)"
  "application_state (sockets (deliver 0 [message_frame ''error'' ''No text provided''] demo_world) 0)
     = CONNECTED"
  "active (streams (deliver 0 [message_frame ''error'' ''No text provided''] demo_world) 11)"
  "outbox (sockets (deliver 0 [message_frame ''error'' ''No text provided''] demo_world) 0)
     = [message_frame ''error'' ''No text provided'']"
proof -
  have conn: "application_state (sockets demo_world (h_websocket demo_handler)) = CONNECTED"
    by (simp add: demo_world_sel demo_handler_def)
  have "h_websocket demo_handler = 0" "h_stream demo_handler = Some 11"
    by (simp_all add: demo_handler_def)
  then show "handle_message failing_env (JDict [(''type'', JStr ''synthesize'')]) demo_handler
      demo_world
      = (demo_handler, deliver 0 [message_frame ''error'' ''No text provided''] demo_world)"
    using request_errors_delivered(1) [of "JDict [(''type'', JStr ''synthesize'')]" demo_handler
        11 JNull demo_world failing_env] conn
    by simp
  show "application_state
      (sockets (deliver 0 [message_frame ''error'' ''No text provided''] demo_world) 0) = CONNECTED"
    by (simp add: deliver_state demo_world_sel)
  show "active (streams (deliver 0 [message_frame ''error'' ''No text provided''] demo_world) 11)"
    by (simp add: deliver_streams demo_world_sel demo_stream_object_def)
  show "outbox (sockets (deliver 0 [message_frame ''error'' ''No text provided''] demo_world) 0)
      = [message_frame ''error'' ''No text provided'']"
    by (simp add: deliver_outbox demo_world_sel)
qed

text \<open>
  Claim C2 at a concrete input. The engine fails on a well-formed synthesis request of a
  session that has just been set up. \<open>_handle_synthesis\<close> answers with
  \<^verbatim>\<open>_send_error("Synthesis failed")\<close>, as it does for every other failure, but
  \<open>stream_audio\<close> has closed the stream before raising: the stream's active flag is false,
  the session's transport is closed, and the error message, sent on the closed transport,
  is lost. No frame at all has reached the client.
\<close>

theorem synthesis_failure_counterexample:
  "active (streams (snd (handle_message failing_env synthesize_hello demo_handler demo_world)) 11)
     = False
   \<and> application_state
       (sockets (snd (handle_message failing_env synthesize_hello demo_handler demo_world)) 0)
     = DISCONNECTED
   \<and> outbox (sockets (snd (handle_message failing_env synthesize_hello demo_handler demo_world)) 0)
     = []"
  by (simp add: demo_handle_failed_synthesis demo_closed_world)

text \<open>
  Claim C2 in general: the handler never delivers the error message of a failed
  synthesis. Whenever the engine fails on a synthesis request, \<open>stream_audio\<close> closes the
  session's stream before it raises: the stream's active flag becomes false and the
  transport is closed. The handler catches the exception and sends its error message on
  the closed transport, where the send raises and the exception is only logged: the
  frames that the client has received are those from before the request. The handler
  itself returns normally; its own active flag, its queue and its consumer task are as
  before (the failed synthesis task is added to its task list), so the consumer loop goes
  on with the next queued message, on a transport that is closed.
\<close>

theorem synthesis_failure_loses_error:
  assumes kind: "py_get message ''type'' JNull = Inr (JStr ''synthesize'')"
    and wired: "h_stream h = Some a" "websocket_ref (streams w a) = h_websocket h"
    and field: "py_get message ''text'' JNull = Inr txt" "truthy txt"
    and req: "synthesis_request ev message txt = Inr (voice, speed)"
    and fail: "generate_speech (the_tts_model ev) txt voice speed ''en'' = Inl e"
  shows "\<exists>h' w'. handle_message ev message h w = (h', w')
       \<and> \<not> active (streams w' a)
       \<and> application_state (sockets w' (h_websocket h)) = DISCONNECTED
       \<and> outbox (sockets w' (h_websocket h)) = outbox (sockets w (h_websocket h))
       \<and> h' = h\<lparr>tasks := tasks h
                   @ [(Synthesis, Failed (Exc WebSocketError ''Audio streaming failed''))]\<rparr>
       \<and> (h_active h \<longrightarrow> consume ev (message # queue) h w = consume ev queue h' w')"
proof -
  let ?h' = "h\<lparr>tasks := tasks h
                 @ [(Synthesis, Failed (Exc WebSocketError ''Audio streaming failed''))]\<rparr>"
  let ?w' = "stream_close a w"
  have sa: "stream_audio ev a txt voice speed w
      = (Inl (Exc WebSocketError ''Audio streaming failed''), ?w')"
    by (rule stream_audio_fails [OF fail])
  have "handle_synthesis ev message h w = (?h', ?w')"
    using wired(1) field req sa
    by (simp add: handle_synthesis_def send_error_def send_after_close [OF wired(2)])
  then have hm: "handle_message ev message h w = (?h', ?w')"
    using kind by (simp add: handle_message_def)
  have closed: "\<not> active (streams ?w' a)" by (rule stream_close_inactive)
  have disc: "application_state (sockets ?w' (h_websocket h)) = DISCONNECTED"
    using stream_close_disconnected [of a w] wired(2) by simp
  have lost: "outbox (sockets ?w' (h_websocket h)) = outbox (sockets w (h_websocket h))"
    by (rule stream_close_outbox)
  have "h_active h \<longrightarrow> consume ev (message # queue) h w = consume ev queue ?h' ?w'"
    using hm by simp
  with hm closed disc lost show ?thesis by blast
qed

theorem synthesis_failure_loses_error_witness:
  "py_get synthesize_hello ''type'' JNull = Inr (JStr ''synthesize'')
   \<and> h_stream demo_handler = Some 11
   \<and> websocket_ref (streams demo_world 11) = h_websocket demo_handler
   \<and> py_get synthesize_hello ''text'' JNull = Inr (JStr ''hello'')
   \<and> truthy (JStr ''hello'')
   \<and> synthesis_request failing_env synthesize_hello (JStr ''hello'') = Inr (JStr ''default'', 1)
   \<and> generate_speech (the_tts_model failing_env) (JStr ''hello'') (JStr ''default'') 1 ''en''
       = Inl (Exc ModelError ''Speech generation failed'')
   \<and> h_active (fst (handle_message failing_env synthesize_hello demo_handler demo_world))
   \<and> message_queue (fst (handle_message failing_env synthesize_hello demo_handler demo_world)) = []
   \<and> outbox (sockets (snd (handle_message failing_env synthesize_hello demo_handler demo_world))
               (h_websocket demo_handler)) = []"
proof -
  have kind: "py_get synthesize_hello ''type'' JNull = Inr (JStr ''synthesize'')"
    by (simp add: synthesize_hello_def)
  have w1: "h_stream demo_handler = Some 11" by (simp add: demo_handler_def)
  have w2: "websocket_ref (streams demo_world 11) = h_websocket demo_handler"
    by (simp add: demo_world_sel demo_stream_object_def demo_handler_def)
  have t1: "py_get synthesize_hello ''text'' JNull = Inr (JStr ''hello'')"
    by (simp add: synthesize_hello_def)
  have t2: "truthy (JStr ''hello'')" by simp
  have req: "synthesis_request failing_env synthesize_hello (JStr ''hello'')
      = Inr (JStr ''default'', 1)"
    by (simp add: synthesis_request_def synthesize_hello_def)
  from synthesis_failure_loses_error [OF kind w1 w2 t1 t2 req failing_env_speech]
  obtain h' w' where
    hm: "handle_message failing_env synthesize_hello demo_handler demo_world = (h', w')"
    and lost: "outbox (sockets w' (h_websocket demo_handler))
      = outbox (sockets demo_world (h_websocket demo_handler))"
    and h': "h' = demo_handler\<lparr>tasks := tasks demo_handler
            @ [(Synthesis, Failed (Exc WebSocketError ''Audio streaming failed''))]\<rparr>"
    by blast
  from hm h'
  have "h_active (fst (handle_message failing_env synthesize_hello demo_handler demo_world))"
    and "message_queue (fst (handle_message failing_env synthesize_hello demo_handler demo_world))
      = []"
    by (simp_all add: demo_handler_def)
  moreover have "outbox (sockets demo_world (h_websocket demo_handler)) = []"
    by (simp add: demo_world_sel demo_handler_def)
  then have "outbox (sockets (snd (handle_message failing_env synthesize_hello demo_handler
      demo_world)) (h_websocket demo_handler)) = []"
    using hm lost by simp
  ultimately show ?thesis using kind w1 w2 t1 t2 req failing_env_speech by simp
qed

lemma demo_handle_stop:
  "handle_message demo_env stop_message demo_handler demo_world
     = (demo_handler, stream_close 11 demo_world)"
proof -
  have wired: "websocket_ref (streams demo_world 11) = h_websocket demo_handler"
    by (simp add: demo_world_sel demo_stream_object_def demo_handler_def)
  have "h_stream demo_handler = Some 11" by (simp add: demo_handler_def)
  then show ?thesis
    by (simp add: handle_message_def stop_message_def handle_stop_def send_success_def
        send_after_close [OF wired])
qed

text \<open>
  The reply to a configure message, sent on the open transport of the session that has
  just been set up, does reach the client.
\<close>

lemma demo_configure_reply:
  "handle_message demo_env (JDict [(''type'', JStr ''configure'')]) demo_handler demo_world
     = (demo_handler, deliver 0 [message_frame ''success'' ''Configuration updated''] demo_world)"
proof -
  have "application_state (sockets demo_world (h_websocket demo_handler)) = CONNECTED"
    "h_websocket demo_handler = 0"
    by (simp_all add: demo_world_sel demo_handler_def)
  then show ?thesis
    by (simp add: handle_message_def handle_configure_def send_success_def
        send_json_quietly_connected)
qed

text \<open>
  Claim C3 at a concrete input. A stop message arrives on a session that has just been
  set up and streams nothing. \<open>_handle_stop\<close> closes the stream, which closes the
  transport, and then answers with \<^verbatim>\<open>_send_success("Streaming stopped")\<close> on the
  transport that it has just closed. Afterwards the session's transport is closed, the
  stream is inactive, and no success message has reached the client.
\<close>

theorem stop_counterexample:
  "application_state
       (sockets (snd (handle_message demo_env stop_message demo_handler demo_world)) 0)
     = DISCONNECTED
   \<and> active (streams (snd (handle_message demo_env stop_message demo_handler demo_world)) 11)
     = False
   \<and> outbox (sockets (snd (handle_message demo_env stop_message demo_handler demo_world)) 0)
     = []"
  by (simp add: demo_handle_stop demo_closed_world)

text \<open>
  Claim C3 in general: the handler never delivers the reply to a stop message. Handling
  a stop message closes the session's stream, whether or not anything is streaming: the
  stream's active flag becomes false and the transport is closed. The success message is
  then sent on the closed transport, where the send raises and the exception is only
  logged: the frames that the client has received are those from before the stop. The
  handler itself is unchanged (its active flag, its queue and its tasks), so the consumer
  loop goes on with the next queued message, on a transport that is closed.
\<close>

theorem stop_loses_reply:
  assumes kind: "py_get message ''type'' JNull = Inr (JStr ''stop'')"
    and wired: "h_stream h = Some a" "websocket_ref (streams w a) = h_websocket h"
  shows "\<exists>w'. handle_message ev message h w = (h, w')
       \<and> \<not> active (streams w' a)
       \<and> application_state (sockets w' (h_websocket h)) = DISCONNECTED
       \<and> outbox (sockets w' (h_websocket h)) = outbox (sockets w (h_websocket h))
       \<and> (h_active h \<longrightarrow> consume ev (message # queue) h w = consume ev queue h w')"
proof -
  let ?w' = "stream_close a w"
  have "handle_stop h w = ?w'"
    using wired(1) by (simp add: handle_stop_def send_success_def send_after_close [OF wired(2)])
  then have hm: "handle_message ev message h w = (h, ?w')"
    using kind by (simp add: handle_message_def)
  have closed: "\<not> active (streams ?w' a)" by (rule stream_close_inactive)
  have disc: "application_state (sockets ?w' (h_websocket h)) = DISCONNECTED"
    using stream_close_disconnected [of a w] wired(2) by simp
  have lost: "outbox (sockets ?w' (h_websocket h)) = outbox (sockets w (h_websocket h))"
    by (rule stream_close_outbox)
  have "h_active h \<longrightarrow> consume ev (message # queue) h w = consume ev queue h ?w'"
    using hm by simp
  with hm closed disc lost show ?thesis by blast
qed

theorem stop_loses_reply_witness:
  "py_get stop_message ''type'' JNull = Inr (JStr ''stop'')
   \<and> h_stream demo_handler = Some 11
   \<and> websocket_ref (streams demo_world 11) = h_websocket demo_handler
   \<and> fst (handle_message demo_env stop_message demo_handler demo_world) = demo_handler
   \<and> h_active demo_handler
   \<and> outbox (sockets (snd (handle_message demo_env stop_message demo_handler demo_world))
               (h_websocket demo_handler)) = []"
proof -
  have kind: "py_get stop_message ''type'' JNull = Inr (JStr ''stop'')"
    by (simp add: stop_message_def)
  have w1: "h_stream demo_handler = Some 11" by (simp add: demo_handler_def)
  have w2: "websocket_ref (streams demo_world 11) = h_websocket demo_handler"
    by (simp add: demo_world_sel demo_stream_object_def demo_handler_def)
  from stop_loses_reply [OF kind w1 w2, of demo_env]
  obtain w' where
    hm: "handle_message demo_env stop_message demo_handler demo_world = (demo_handler, w')"
    and lost: "outbox (sockets w' (h_websocket demo_handler))
      = outbox (sockets demo_world (h_websocket demo_handler))"
    by blast
  from hm have "fst (handle_message demo_env stop_message demo_handler demo_world) = demo_handler"
    by simp
  moreover have "h_active demo_handler" by (simp add: demo_handler_def)
  moreover have "outbox (sockets demo_world (h_websocket demo_handler)) = []"
    by (simp add: demo_world_sel demo_handler_def)
  then have "outbox (sockets (snd (handle_message demo_env stop_message demo_handler demo_world))
      (h_websocket demo_handler)) = []"
    using hm lost by simp
  ultimately show ?thesis using kind w1 w2 by simp
qed

section \<open>Malformed and unknown frames\<close>

text \<open>
  Claim C7. While the transport is connected, a malformed frame makes the receive loop
  send the one error message "Invalid JSON message" and go on with the following events,
  the handler as before. A JSON object whose \<open>type\<close> is missing or is none of
  synthesize, pong, stop and configure makes \<open>handle_message\<close> send the one error
  message "Unknown message type" and leave the handler as before, so the consumer loop
  goes on with the rest of the queue. In both cases the transport stays connected and no
  stream is touched.
\<close>

theorem bad_frames_keep_session:
  assumes conn: "application_state (sockets w (h_websocket h)) = CONNECTED"
    and unknown: "map_of kvs ''type'' \<notin> {Some (JStr ''synthesize''), Some (JStr ''pong''),
                                           Some (JStr ''stop''), Some (JStr ''configure'')}"
  shows "receive_loop ev (Receive Malformed # events) h w
           = receive_loop ev events h
               (deliver (h_websocket h) [message_frame ''error'' ''Invalid JSON message''] w)
       \<and> handle_message ev (JDict kvs) h w
           = (h, deliver (h_websocket h) [message_frame ''error'' ''Unknown message type''] w)
       \<and> (h_active h \<longrightarrow>
            consume ev (JDict kvs # queue) h w
              = consume ev queue h
                  (deliver (h_websocket h) [message_frame ''error'' ''Unknown message type''] w))
       \<and> application_state (sockets (deliver (h_websocket h) fs w) (h_websocket h)) = CONNECTED
       \<and> streams (deliver (h_websocket h) fs w) = streams w"
proof -
  have malformed: "receive_loop ev (Receive Malformed # events) h w
      = receive_loop ev events h
          (deliver (h_websocket h) [message_frame ''error'' ''Invalid JSON message''] w)"
    using conn by (simp add: send_error_def send_json_quietly_connected)
  have "py_get (JDict kvs) ''type'' JNull \<noteq> Inr (JStr ''synthesize'')"
       "py_get (JDict kvs) ''type'' JNull \<noteq> Inr (JStr ''pong'')"
       "py_get (JDict kvs) ''type'' JNull \<noteq> Inr (JStr ''stop'')"
       "py_get (JDict kvs) ''type'' JNull \<noteq> Inr (JStr ''configure'')"
    using unknown by (auto split: option.splits)
  then have hm: "handle_message ev (JDict kvs) h w
      = (h, deliver (h_websocket h) [message_frame ''error'' ''Unknown message type''] w)"
    using conn
    by (auto simp: handle_message_def send_error_def send_json_quietly_connected
        split: option.splits)
  have "h_active h \<longrightarrow>
      consume ev (JDict kvs # queue) h w
        = consume ev queue h
            (deliver (h_websocket h) [message_frame ''error'' ''Unknown message type''] w)"
    using hm by simp
  with malformed hm conn show ?thesis
    by (simp add: deliver_state deliver_streams)
qed

lemma demo_connected: "application_state (sockets demo_world (h_websocket demo_handler)) = CONNECTED"
  by (simp add: demo_handler_def demo_world_sel)

theorem bad_frames_keep_session_witness:
  "application_state (sockets demo_world (h_websocket demo_handler)) = CONNECTED
   \<and> map_of [(''type'', JStr ''dance'')] ''type''
       \<notin> {Some (JStr ''synthesize''), Some (JStr ''pong''), Some (JStr ''stop''),
          Some (JStr ''configure'')}
   \<and> fst (receive_loop demo_env [Receive Malformed, Receive (TextFrame dance_message), RunConsumer]
          demo_handler demo_world) = False
   \<and> fst (snd (receive_loop demo_env
          [Receive Malformed, Receive (TextFrame dance_message), RunConsumer]
          demo_handler demo_world)) = demo_handler
   \<and> outbox (sockets (snd (snd (receive_loop demo_env
          [Receive Malformed, Receive (TextFrame dance_message), RunConsumer]
          demo_handler demo_world))) 0)
       = [message_frame ''error'' ''Invalid JSON message'',
          message_frame ''error'' ''Unknown message type'']"
proof -
  let ?w1 = "deliver (h_websocket demo_handler)
               [message_frame ''error'' ''Invalid JSON message''] demo_world"
  have unknown: "map_of [(''type'', JStr ''dance'')] ''type''
       \<notin> {Some (JStr ''synthesize''), Some (JStr ''pong''), Some (JStr ''stop''),
          Some (JStr ''configure'')}"
    by simp
  have conn1: "application_state (sockets ?w1 (h_websocket demo_handler)) = CONNECTED"
    using demo_connected by (simp add: deliver_state)
  have first: "receive_loop demo_env
        [Receive Malformed, Receive (TextFrame dance_message), RunConsumer] demo_handler demo_world
      = receive_loop demo_env [Receive (TextFrame dance_message), RunConsumer] demo_handler ?w1"
    using bad_frames_keep_session [OF demo_connected unknown] by blast
  let ?h1 = "demo_handler\<lparr>message_queue := [dance_message]\<rparr>"
  have conn2: "application_state (sockets ?w1 (h_websocket ?h1)) = CONNECTED"
    using conn1 by simp
  have second: "handle_message demo_env dance_message ?h1 ?w1
      = (?h1, deliver (h_websocket demo_handler)
           [message_frame ''error'' ''Invalid JSON message'',
            message_frame ''error'' ''Unknown message type''] demo_world)"
    using bad_frames_keep_session [OF conn2 unknown, of demo_env]
    by (simp add: dance_message_def deliver_deliver)
  have enq: "handle_incoming_message dance_message demo_handler = ?h1"
    by (simp add: handle_incoming_message_def demo_handler_def)
  have run: "process_messages demo_env ?h1 ?w1
      = (demo_handler, deliver (h_websocket demo_handler)
           [message_frame ''error'' ''Invalid JSON message'',
            message_frame ''error'' ''Unknown message type''] demo_world)"
    by (simp add: process_messages_def second) (simp add: demo_handler_def)
  have rest: "receive_loop demo_env [Receive (TextFrame dance_message), RunConsumer] demo_handler ?w1
      = (False, demo_handler, deliver (h_websocket demo_handler)
           [message_frame ''error'' ''Invalid JSON message'',
            message_frame ''error'' ''Unknown message type''] demo_world)"
    using conn1 by (simp add: enq run)
  have "outbox (sockets (deliver (h_websocket demo_handler)
           [message_frame ''error'' ''Invalid JSON message'',
            message_frame ''error'' ''Unknown message type''] demo_world) 0)
      = [message_frame ''error'' ''Invalid JSON message'',
         message_frame ''error'' ''Unknown message type'']"
    by (simp add: demo_handler_def deliver_def set_socket_def demo_world_sel)
  with first rest demo_connected unknown show ?thesis by simp
qed

section \<open>The connection limit\<close>

lemma demo_endpoint:
  "websocket_endpoint_handler demo_env 0 [] empty_world = (None, demo_handler, demo_world)"
  by (simp add: websocket_endpoint_handler_def case_prod_beta demo_session)

lemma demo_second_endpoint:
  "sm_streams (snd (snd (websocket_endpoint_handler demo_env 2 [] demo_world)))
     = [(11, 11), (13, 13)]"
  by (simp add: websocket_endpoint_handler_def handler_initialize_def new_handler_def
      create_stream_def new_audio_stream_def stream_initialize_def set_stream_def set_socket_def
      socket_of_def ws_accept_if fresh_socket_def dict_set_def demo_world_def Let_def)

text \<open>
  Claim C1, evaluated. The limit is one connection. The endpoint serves a first client
  and the registry holds one stream: it is at capacity. An admission through
  \<open>connect\<close> is then refused (by a WebSocketError that says nothing of capacity, since
  the check itself raises a TypeError) and leaves the registry as it is. The endpoint
  serves a second client all the same: its handler creates the stream without a check,
  and the registry holds two streams.
\<close>

theorem endpoint_exceeds_connection_limit:
  "MAX_CONNECTIONS (the_settings demo_env) = 1
   \<and> websocket_endpoint_handler demo_env 0 [] empty_world = (None, demo_handler, demo_world)
   \<and> active_streams demo_world = 1
   \<and> validate_connection_limit demo_env demo_world
       = Inl (Exc TypeError ''__init__() got an unexpected keyword argument status_code'')
   \<and> connect demo_env 2 demo_world
       = (Inl (Exc WebSocketError ''Failed to establish WebSocket connection''), demo_world)
   \<and> fst (websocket_endpoint_handler demo_env 2 [] demo_world) = None
   \<and> active_streams (snd (snd (websocket_endpoint_handler demo_env 2 [] demo_world))) = 2"
proof -
  have cap: "MAX_CONNECTIONS (the_settings demo_env) = 1"
    by (simp add: demo_env_def demo_settings_def)
  have one: "active_streams demo_world = 1"
    by (simp add: active_streams_def demo_world_def)
  have v: "validate_connection_limit demo_env demo_world
      = Inl (Exc TypeError ''__init__() got an unexpected keyword argument status_code'')"
    by (simp add: validate_connection_limit_def cap one)
  have c: "connect demo_env 2 demo_world
      = (Inl (Exc WebSocketError ''Failed to establish WebSocket connection''), demo_world)"
    by (simp add: connect_def v)
  have ok: "fst (websocket_endpoint_handler demo_env 2 [] demo_world) = None"
    by (simp add: websocket_endpoint_handler_def handler_initialize_def new_handler_def
      create_stream_def new_audio_stream_def stream_initialize_def set_stream_def set_socket_def
      socket_of_def ws_accept_if fresh_socket_def dict_set_def demo_world_def Let_def)
  have two: "active_streams (snd (snd (websocket_endpoint_handler demo_env 2 [] demo_world))) = 2"
    by (simp add: active_streams_def demo_second_endpoint)
  from cap demo_endpoint one v c ok two show ?thesis by simp
qed

section \<open>No interleaving of two synthesis calls\<close>

lemma exec_cases [consumes 1, case_names Enqueue Dequeue Acquire SendChunk LeaveLoop EndMarker
    Fail CloseAfterFail Resume CloseStream]:
  assumes "exec gen a s = Some s'"
  obtains
    (Enqueue) r where "a = Enqueue r" "r \<notin> set (arrived s)"
      "s' = s\<lparr>arrived := arrived s @ [r], requests := requests s @ [r]\<rparr>"
  | (Dequeue) r q where "a = Dequeue" "awaited s = None" "requests s = r # q"
      "s' = s\<lparr>requests := q, awaited := Some r, phase_of := (phase_of s)(r := Waiting)\<rparr>"
  | (Acquire) r where "a = Acquire r" "phase_of s r = Waiting" "lock_holder s = None"
      "s' = s\<lparr>lock_holder := Some r, phase_of := (phase_of s)(r := Streaming (gen r))\<rparr>"
  | (SendChunk) r c cs where "a = SendChunk r" "phase_of s r = Streaming (c # cs)"
      "s' = s\<lparr>sent_frames := sent_frames s @ [(r, Bytes c)],
                phase_of := (phase_of s)(r := Streaming cs)\<rparr>"
  | (LeaveLoop) r where "a = LeaveLoop r" "in_with_block (phase_of s r)"
      "s' = s\<lparr>phase_of := (phase_of s)(r := Ending)\<rparr>"
  | (EndMarker) r where "a = EndMarker r" "phase_of s r = Ending"
      "s' = s\<lparr>sent_frames := (if stream_active s then sent_frames s @ [(r, end_frame)]
                                 else sent_frames s),
                lock_holder := None, phase_of := (phase_of s)(r := Done)\<rparr>"
  | (Fail) r where "a = Fail r" "in_with_block (phase_of s r)"
      "s' = s\<lparr>lock_holder := None, phase_of := (phase_of s)(r := Failing)\<rparr>"
  | (CloseAfterFail) r where "a = CloseAfterFail r" "phase_of s r = Failing"
      "s' = s\<lparr>stream_active := False, phase_of := (phase_of s)(r := Done)\<rparr>"
  | (Resume) r where "a = Resume" "awaited s = Some r" "phase_of s r = Done"
      "s' = s\<lparr>awaited := None\<rparr>"
  | (CloseStream) "a = CloseStream" "s' = s\<lparr>stream_active := False\<rparr>"
proof (cases a)
  case (Enqueue r)
  with assms that(1) show ?thesis by (simp split: if_splits)
next
  case Dequeue
  with assms that(2) show ?thesis by (simp split: option.splits list.splits)
next
  case (Acquire r)
  with assms that(3) show ?thesis by (simp split: if_splits)
next
  case (SendChunk r)
  with assms that(4) show ?thesis by (simp split: phase.splits list.splits if_splits)
next
  case (LeaveLoop r)
  with assms that(5) show ?thesis
    by (simp add: in_with_block_def split: phase.splits list.splits if_splits)
next
  case (EndMarker r)
  with assms that(6) show ?thesis by (simp split: if_splits)
next
  case (Fail r)
  with assms that(7) show ?thesis by (simp add: in_with_block_def split: phase.splits)
next
  case (CloseAfterFail r)
  with assms that(8) show ?thesis by (simp split: if_splits)
next
  case Resume
  with assms that(9) show ?thesis by (simp split: option.splits if_splits)
next
  case CloseStream
  with assms that(10) show ?thesis by simp
qed

subsection \<open>The consumer takes one request at a time, in the order of arrival\<close>

lemma started_phase:
  "consumer_invariant s \<Longrightarrow> (phase_of s r \<noteq> NotStarted) = (r \<in> set (started s))"
  by (simp add: consumer_invariant_def)

lemma unfinished_is_awaited:
  assumes "consumer_invariant s" and "phase_of s r \<noteq> NotStarted" and "phase_of s r \<noteq> Done"
  shows "awaited s = Some r"
proof -
  have "r \<in> set (started s)" using assms(1,2) by (simp add: started_phase)
  then show ?thesis using assms(1,3) by (auto simp: consumer_invariant_def)
qed

lemma consumer_invariant_fields:
  assumes "consumer_invariant s"
  shows "arrived s = started s @ requests s" and "distinct (arrived s)"
    and "\<forall>r. (phase_of s r \<noteq> NotStarted) = (r \<in> set (started s))"
    and "\<forall>r \<in> set (started s). awaited s \<noteq> Some r \<longrightarrow> phase_of s r = Done"
    and "\<forall>r. awaited s = Some r \<longrightarrow> started s \<noteq> [] \<and> last (started s) = r"
  using assms unfolding consumer_invariant_def by blast+

lemma consumer_invariant_phase:
  assumes inv: "consumer_invariant s"
    and old: "phase_of s r \<noteq> NotStarted" "phase_of s r \<noteq> Done"
    and new: "p \<noteq> NotStarted"
    and same: "arrived s' = arrived s" "requests s' = requests s" "awaited s' = awaited s"
    and ph: "phase_of s' = (phase_of s)(r := p)"
  shows "consumer_invariant s'"
proof -
  note f = consumer_invariant_fields [OF inv]
  have st: "started s' = started s" by (simp add: started_def same)
  have aw: "awaited s = Some r" by (rule unfinished_is_awaited [OF inv old])
  have mem: "r \<in> set (started s)" using inv old(1) by (simp add: started_phase)
  show ?thesis
    unfolding consumer_invariant_def st same ph
    using f aw mem new by auto
qed

lemma consumer_invariant_same:
  assumes inv: "consumer_invariant s"
    and same: "arrived s' = arrived s" "requests s' = requests s" "awaited s' = awaited s"
      "phase_of s' = phase_of s"
  shows "consumer_invariant s'"
proof -
  have st: "started s' = started s" by (simp add: started_def same)
  show ?thesis
    unfolding consumer_invariant_def st same
    using consumer_invariant_fields [OF inv] by blast
qed

lemma exec_consumer_invariant:
  assumes inv: "consumer_invariant s" and "exec gen a s = Some s'"
  shows "consumer_invariant s'"
  using assms(2)
proof (cases rule: exec_cases)
  case (Enqueue r)
  note f = consumer_invariant_fields [OF inv]
  have fields: "arrived s' = arrived s @ [r]" "requests s' = requests s @ [r]"
      "awaited s' = awaited s" "phase_of s' = phase_of s"
    by (simp_all add: Enqueue(3))
  have "length (arrived s) = length (started s) + length (requests s)"
    using f(1) by (metis length_append)
  then have k: "length (arrived s') - length (requests s') = length (started s)"
    by (simp add: fields)
  have "take (length (started s)) (arrived s') = started s"
    using f(1) by (metis append.assoc append_eq_conv_conj fields(1))
  then have st: "started s' = started s" by (simp add: started_def k)
  have a1: "arrived s @ [r] = started s @ requests s @ [r]" using f(1) by simp
  have a2: "distinct (arrived s @ [r])" using f(2) Enqueue(2) by simp
  show ?thesis
    unfolding consumer_invariant_def st fields
    using a1 a2 f(3,4,5) by blast
next
  case (Dequeue r q)
  note f = consumer_invariant_fields [OF inv]
  have fields: "arrived s' = arrived s" "requests s' = q" "awaited s' = Some r"
      "phase_of s' = (phase_of s)(r := Waiting)"
    by (simp_all add: Dequeue(4))
  have arr: "arrived s = started s @ r # q" using f(1) Dequeue(3) by simp
  have "length (arrived s) - length q = Suc (length (started s))"
    by (subst arr) simp
  moreover have "take (Suc (length (started s))) (arrived s) = started s @ [r]"
    by (subst arr) simp
  ultimately have st: "started s' = started s @ [r]"
    by (simp add: started_def fields)
  have "distinct (started s @ r # q)" using f(2) arr by metis
  then have fresh: "r \<notin> set (started s)" by auto
  have all_done: "\<forall>x \<in> set (started s). phase_of s x = Done"
    using f(4) Dequeue(2) by simp
  have a1: "arrived s = (started s @ [r]) @ q" using arr by simp
  have a3: "\<forall>x. (((phase_of s)(r := Waiting)) x \<noteq> NotStarted) = (x \<in> set (started s @ [r]))"
    using f(3) by auto
  have a4: "\<forall>x \<in> set (started s @ [r]). Some r \<noteq> Some x \<longrightarrow> ((phase_of s)(r := Waiting)) x = Done"
    using all_done by auto
  have a5: "\<forall>x. Some r = Some x \<longrightarrow> started s @ [r] \<noteq> [] \<and> last (started s @ [r]) = x"
    by simp
  show ?thesis
    unfolding consumer_invariant_def st fields
    using a1 f(2) a3 a4 a5 by blast
next
  case (Acquire r)
  show ?thesis
    by (rule consumer_invariant_phase [OF inv, of r "Streaming (gen r)"])
      (simp_all add: Acquire)
next
  case (SendChunk r c cs)
  show ?thesis
    by (rule consumer_invariant_phase [OF inv, of r "Streaming cs"]) (simp_all add: SendChunk)
next
  case (LeaveLoop r)
  then have "phase_of s r \<noteq> NotStarted" "phase_of s r \<noteq> Done"
    by (auto simp: in_with_block_def)
  then show ?thesis
    by (rule consumer_invariant_phase [OF inv, of r Ending]) (simp_all add: LeaveLoop)
next
  case (EndMarker r)
  then have "phase_of s r \<noteq> NotStarted" "phase_of s r \<noteq> Done" by simp_all
  then show ?thesis
    by (rule consumer_invariant_phase [OF inv, of r Done]) (simp_all add: EndMarker)
next
  case (Fail r)
  then have "phase_of s r \<noteq> NotStarted" "phase_of s r \<noteq> Done"
    by (auto simp: in_with_block_def)
  then show ?thesis
    by (rule consumer_invariant_phase [OF inv, of r Failing]) (simp_all add: Fail)
next
  case (CloseAfterFail r)
  then have "phase_of s r \<noteq> NotStarted" "phase_of s r \<noteq> Done" by simp_all
  then show ?thesis
    by (rule consumer_invariant_phase [OF inv, of r Done]) (simp_all add: CloseAfterFail)
next
  case (Resume r)
  note f = consumer_invariant_fields [OF inv]
  have fields: "arrived s' = arrived s" "requests s' = requests s" "awaited s' = None"
      "phase_of s' = phase_of s"
    by (simp_all add: Resume(4))
  have st: "started s' = started s" by (simp add: started_def fields)
  have a4: "\<forall>x \<in> set (started s). None \<noteq> Some x \<longrightarrow> phase_of s x = Done"
    using f(4) Resume(2,3) by auto
  show ?thesis
    unfolding consumer_invariant_def st fields
    using f(1,2,3) a4 by simp
next
  case CloseStream
  show ?thesis
    by (rule consumer_invariant_same [OF inv]) (simp_all add: CloseStream)
qed

lemma earlier_request_done:
  assumes inv: "consumer_invariant s"
    and order: "arrived s = xs @ a # ys @ b # zs"
    and begun: "phase_of s b \<noteq> NotStarted"
  shows "phase_of s a = Done"
proof -
  note f = consumer_invariant_fields [OF inv]
  have b_in: "b \<in> set (started s)" using f(3) begun by simp
  then obtain us vs where st: "started s = us @ b # vs" by (meson split_list)
  have d1: "distinct (us @ b # vs @ requests s)" using f(1,2) st by (metis append.assoc append_Cons)
  have eq: "us @ b # (vs @ requests s) = (xs @ a # ys) @ b # zs"
    using f(1) order st by simp
  have n1: "b \<notin> set us" using d1 by auto
  have n2: "b \<notin> set (vs @ requests s)" using d1 by auto
  have us: "us = xs @ a # ys"
    using append_Cons_eq_iff [THEN iffD1, OF n1 n2 eq] by (rule conjunct1)
  have a_in: "a \<in> set (started s)" by (simp add: st us)
  have "last (started s) \<in> set (b # vs)" by (simp add: st)
  moreover have "a \<notin> set (b # vs)" using d1 us by auto
  ultimately have "a \<noteq> last (started s)" by metis
  then have "awaited s \<noteq> Some a" using f(5) by auto
  then show ?thesis using f(4) a_in by simp
qed

subsection \<open>The lock\<close>

lemma lock_owner:
  "lock_invariant s \<Longrightarrow> in_with_block (phase_of s r) \<Longrightarrow> lock_holder s = Some r"
  by (simp add: lock_invariant_def)

lemma owner_in_with_block:
  "lock_invariant s \<Longrightarrow> lock_holder s = Some r \<Longrightarrow> in_with_block (phase_of s r)"
  by (simp add: lock_invariant_def)

lemma queued_not_started:
  assumes "consumer_invariant s" and "r \<in> set (requests s)"
  shows "phase_of s r = NotStarted"
proof -
  note f = consumer_invariant_fields [OF assms(1)]
  have "distinct (started s @ requests s)" using f(1,2) by metis
  then have "r \<notin> set (started s)" using assms(2) by auto
  then show ?thesis using f(3) by blast
qed

lemma exec_lock_invariant:
  assumes "lock_invariant s" and "consumer_invariant s" and "exec gen a s = Some s'"
  shows "lock_invariant s'"
  using assms(3)
proof (cases rule: exec_cases)
  case (Enqueue r)
  then show ?thesis using assms(1) by (simp add: lock_invariant_def)
next
  case (Dequeue r q)
  then have "phase_of s r = NotStarted" using queued_not_started [OF assms(2), of r] by simp
  then have "\<not> in_with_block (phase_of s r)" by (simp add: in_with_block_def)
  then have "lock_holder s \<noteq> Some r" using owner_in_with_block [OF assms(1)] by blast
  then show ?thesis using assms(1) Dequeue
    by (auto simp: lock_invariant_def in_with_block_def)
next
  case (Acquire r)
  then show ?thesis using assms(1)
    by (auto simp: lock_invariant_def in_with_block_def)
next
  case (SendChunk r c cs)
  then have "lock_holder s = Some r"
    using lock_owner [OF assms(1), of r] by (simp add: in_with_block_def)
  then show ?thesis using assms(1) SendChunk
    by (auto simp: lock_invariant_def in_with_block_def)
next
  case (LeaveLoop r)
  then have "lock_holder s = Some r" using lock_owner [OF assms(1)] by simp
  then show ?thesis using assms(1) LeaveLoop
    by (auto simp: lock_invariant_def in_with_block_def)
next
  case (EndMarker r)
  then have "lock_holder s = Some r"
    using lock_owner [OF assms(1), of r] by (simp add: in_with_block_def)
  then show ?thesis using assms(1) EndMarker
    by (auto simp: lock_invariant_def in_with_block_def)
next
  case (Fail r)
  then have "lock_holder s = Some r" using lock_owner [OF assms(1)] by simp
  then show ?thesis using assms(1) Fail
    by (auto simp: lock_invariant_def in_with_block_def)
next
  case (CloseAfterFail r)
  then have "lock_holder s \<noteq> Some r"
    using owner_in_with_block [OF assms(1), of r] by (auto simp: in_with_block_def)
  then show ?thesis using assms(1) CloseAfterFail
    by (auto simp: lock_invariant_def in_with_block_def)
next
  case (Resume r)
  then show ?thesis using assms(1) by (simp add: lock_invariant_def)
next
  case CloseStream
  then show ?thesis using assms(1) by (simp add: lock_invariant_def)
qed

subsection \<open>The frames on the transport\<close>

lemma remdups_adj_snoc:
  "remdups_adj (xs @ [x])
     = (if xs \<noteq> [] \<and> last xs = x then remdups_adj xs else remdups_adj xs @ [x])"
  by (cases xs rule: rev_cases) (simp_all add: remdups_adj_append_two)

lemma not_interleaved_snoc:
  assumes "not_interleaved xs" and "x \<in> set xs \<longrightarrow> last xs = x"
  shows "not_interleaved (xs @ [x])"
proof (cases "x \<in> set xs")
  case True
  then have "xs \<noteq> []" "last xs = x" using assms(2) by auto
  then show ?thesis using assms(1) by (simp add: not_interleaved_def remdups_adj_snoc)
next
  case False
  then have "\<not> (xs \<noteq> [] \<and> last xs = x)" using last_in_set by blast
  then show ?thesis using assms(1) False by (simp add: not_interleaved_def remdups_adj_snoc)
qed

lemma not_interleaved_between:
  assumes "not_interleaved (xs @ a # ys @ b # zs @ a # ws)"
  shows "a = b"
proof (rule ccontr)
  assume ne: "a \<noteq> b"
  let ?before = "remdups_adj ((xs @ a # ys) @ [b])"
  let ?after = "tl (remdups_adj (b # zs @ a # ws))"
  have split: "remdups_adj ((xs @ a # ys) @ b # zs @ a # ws) = ?before @ ?after"
    by (rule remdups_adj_append)
  have "a \<in> set ?before" by simp
  moreover have "a \<in> set ?after"
  proof -
    have mem: "a \<in> set (remdups_adj (b # zs @ a # ws))" by simp
    have "remdups_adj (b # zs @ a # ws) = b # ?after" by simp
    then have "set (remdups_adj (b # zs @ a # ws)) = insert b (set ?after)"
      by (metis list.simps(15))
    with mem ne show ?thesis by blast
  qed
  ultimately have "\<not> distinct (?before @ ?after)" by auto
  with split assms show False by (simp add: not_interleaved_def)
qed

lemma exec_callers_invariant:
  assumes "lock_invariant s" and "consumer_invariant s" and "callers_invariant s"
    and "exec gen a s = Some s'"
  shows "callers_invariant s'"
  using assms(4)
proof (cases rule: exec_cases)
  case (Enqueue r)
  then show ?thesis using assms(3) by (simp add: callers_invariant_def callers_def)
next
  case (Dequeue r q)
  then have "phase_of s r = NotStarted" using queued_not_started [OF assms(2), of r] by simp
  then have "\<not> finished (phase_of s r)" "\<not> in_with_block (phase_of s r)"
    by (simp_all add: finished_def in_with_block_def)
  then have "\<not> finished (phase_of s r)" "lock_holder s \<noteq> Some r"
    using owner_in_with_block [OF assms(1)] by blast+
  then have "r \<notin> set (callers s)"
    using assms(3) by (auto simp: callers_invariant_def)
  then show ?thesis using assms(3) Dequeue
    by (auto simp: callers_invariant_def callers_def)
next
  case (Acquire r)
  then have "\<forall>q \<in> set (callers s). finished (phase_of s q)"
    using assms(3) by (simp add: callers_invariant_def)
  moreover have "\<not> finished (phase_of s r)" using Acquire by (simp add: finished_def)
  ultimately show ?thesis using Acquire
    by (auto simp: callers_invariant_def callers_def)
next
  case (SendChunk r c cs)
  then have "lock_holder s = Some r"
    using lock_owner [OF assms(1), of r] by (simp add: in_with_block_def)
  then show ?thesis using assms(3) SendChunk
    by (auto simp: callers_invariant_def callers_def finished_def)
next
  case (LeaveLoop r)
  then have "lock_holder s = Some r" using lock_owner [OF assms(1), of r] by simp
  then show ?thesis using assms(3) LeaveLoop
    by (auto simp: callers_invariant_def callers_def finished_def)
next
  case (EndMarker r)
  then have "lock_holder s = Some r"
    using lock_owner [OF assms(1), of r] by (simp add: in_with_block_def)
  then show ?thesis using assms(3) EndMarker
    by (auto simp: callers_invariant_def callers_def finished_def)
next
  case (Fail r)
  then have "lock_holder s = Some r" using lock_owner [OF assms(1), of r] by simp
  then show ?thesis using assms(3) Fail
    by (auto simp: callers_invariant_def callers_def finished_def)
next
  case (CloseAfterFail r)
  then show ?thesis using assms(3)
    by (auto simp: callers_invariant_def callers_def finished_def)
next
  case (Resume r)
  then show ?thesis using assms(3) by (simp add: callers_invariant_def callers_def)
next
  case CloseStream
  then show ?thesis using assms(3) by (simp add: callers_invariant_def callers_def)
qed

lemma exec_not_interleaved:
  assumes "lock_invariant s" and "callers_invariant s" and "not_interleaved (callers s)"
    and "exec gen a s = Some s'"
  shows "not_interleaved (callers s')"
proof -
  have owner: "\<And>r. in_with_block (phase_of s r) \<Longrightarrow> not_interleaved (callers s @ [r])"
  proof -
    fix r assume "in_with_block (phase_of s r)"
    then have "lock_holder s = Some r" using assms(1) by (simp add: lock_invariant_def)
    then have "r \<in> set (callers s) \<longrightarrow> last (callers s) = r"
      using assms(2) by (simp add: callers_invariant_def)
    with assms(3) show "not_interleaved (callers s @ [r])" by (rule not_interleaved_snoc)
  qed
  show ?thesis
    using assms(4)
  proof (cases rule: exec_cases)
    case (SendChunk r c cs)
    then have "in_with_block (phase_of s r)" by (simp add: in_with_block_def)
    then show ?thesis using owner SendChunk by (simp add: callers_def)
  next
    case (EndMarker r)
    then have "in_with_block (phase_of s r)" by (simp add: in_with_block_def)
    then show ?thesis using owner assms(3) EndMarker by (simp add: callers_def)
  qed (use assms(3) in \<open>simp_all add: callers_def\<close>)
qed

lemma run_invariants:
  assumes "consumer_invariant s" and "lock_invariant s" and "callers_invariant s"
    and "not_interleaved (callers s)" and "run gen schedule s = Some s'"
  shows "consumer_invariant s' \<and> lock_invariant s' \<and> callers_invariant s'
       \<and> not_interleaved (callers s')"
  using assms
proof (induction schedule arbitrary: s)
  case Nil
  then show ?case by simp
next
  case (Cons a schedule)
  then obtain s1 where s1: "exec gen a s = Some s1" and rest: "run gen schedule s1 = Some s'"
    by (auto split: option.splits)
  have "consumer_invariant s1" by (rule exec_consumer_invariant [OF Cons.prems(1) s1])
  moreover have "lock_invariant s1" by (rule exec_lock_invariant [OF Cons.prems(2,1) s1])
  moreover have "callers_invariant s1"
    by (rule exec_callers_invariant [OF Cons.prems(2,1,3) s1])
  moreover have "not_interleaved (callers s1)"
    by (rule exec_not_interleaved [OF Cons.prems(2,3,4) s1])
  ultimately show ?case using rest by (rule Cons.IH)
qed

lemma idle_session_invariants:
  "consumer_invariant idle_session" "lock_invariant idle_session"
  "callers_invariant idle_session" "not_interleaved (callers idle_session)"
  by (simp_all add: consumer_invariant_def started_def lock_invariant_def callers_invariant_def
      not_interleaved_def callers_def idle_session_def in_with_block_def)

text \<open>
  Claim C4. Whatever the schedule of the tasks of one session, and whatever requests
  arrive at whatever time: a request that arrived after another one is not taken from
  the queue, let alone streamed, before the earlier one is done (completed, or stopped by
  a close or an exception); the frames of one synthesis call are one block on the
  transport, so that no frame of a second call lies between two frames of a first; at
  most one call is inside the block guarded by the lock; and while a call is inside it,
  every other call that has sent a frame has finished.
\<close>

theorem synthesis_calls_not_interleaved:
  assumes "run gen schedule idle_session = Some s"
  shows "(\<forall>xs a ys b zs. arrived s = xs @ a # ys @ b # zs \<and> phase_of s b \<noteq> NotStarted
            \<longrightarrow> phase_of s a = Done)
       \<and> not_interleaved (callers s)
       \<and> (\<forall>xs a ys b zs ws. callers s = xs @ a # ys @ b # zs @ a # ws \<longrightarrow> a = b)
       \<and> (\<forall>r r'. in_with_block (phase_of s r) \<and> in_with_block (phase_of s r') \<longrightarrow> r = r')
       \<and> (\<forall>r r'. in_with_block (phase_of s r) \<and> r' \<in> set (callers s) \<and> r' \<noteq> r
              \<longrightarrow> finished (phase_of s r'))"
proof -
  from run_invariants [OF idle_session_invariants assms]
  have cn: "consumer_invariant s" and lk: "lock_invariant s" and cl: "callers_invariant s"
    and ni: "not_interleaved (callers s)"
    by simp_all
  have fifo: "\<forall>xs a ys b zs. arrived s = xs @ a # ys @ b # zs \<and> phase_of s b \<noteq> NotStarted
            \<longrightarrow> phase_of s a = Done"
    using earlier_request_done [OF cn] by blast
  have between: "\<forall>xs a ys b zs ws. callers s = xs @ a # ys @ b # zs @ a # ws \<longrightarrow> a = b"
    using ni not_interleaved_between by metis
  have one: "\<forall>r r'. in_with_block (phase_of s r) \<and> in_with_block (phase_of s r') \<longrightarrow> r = r'"
    by (metis lock_owner [OF lk] option.inject)
  have others: "\<forall>r r'. in_with_block (phase_of s r) \<and> r' \<in> set (callers s) \<and> r' \<noteq> r
              \<longrightarrow> finished (phase_of s r')"
  proof (intro allI impI)
    fix r r'
    assume a: "in_with_block (phase_of s r) \<and> r' \<in> set (callers s) \<and> r' \<noteq> r"
    then have "lock_holder s = Some r" using lock_owner [OF lk] by blast
    moreover have "finished (phase_of s r') \<or> lock_holder s = Some r'"
      using cl a by (simp add: callers_invariant_def)
    ultimately show "finished (phase_of s r')" using a by auto
  qed
  from fifo ni between one others show ?thesis by blast
qed

lemma demo_run:
  "\<exists>s. run demo_gen demo_schedule idle_session = Some s
       \<and> arrived s = [21, 22]
       \<and> sent_frames s = [(21, Bytes [255, 63, 1, 224]), (21, Bytes [255, 127, 0, 0]),
                           (21, end_frame), (22, Bytes [255, 63, 1, 224])]
       \<and> phase_of s 22 = Streaming [[255, 127, 0, 0]]"
  by (simp add: demo_schedule_def idle_session_def demo_gen_def)

theorem synthesis_calls_not_interleaved_witness:
  "map_option sent_frames (run demo_gen demo_schedule idle_session)
     = Some [(21, Bytes [255, 63, 1, 224]), (21, Bytes [255, 127, 0, 0]),
             (21, end_frame), (22, Bytes [255, 63, 1, 224])]
   \<and> map_option arrived (run demo_gen demo_schedule idle_session) = Some [21, 22]
   \<and> map_option (\<lambda>s. phase_of s 21) (run demo_gen demo_schedule idle_session) = Some Done
   \<and> not_interleaved [21, 21, 21, 22]
   \<and> run demo_gen [Enqueue 21, Enqueue 22, Dequeue, Acquire 21, SendChunk 21, Dequeue]
       idle_session = None"
proof -
  obtain s where s: "run demo_gen demo_schedule idle_session = Some s"
    and ar: "arrived s = [21, 22]"
    and fr: "sent_frames s = [(21, Bytes [255, 63, 1, 224]), (21, Bytes [255, 127, 0, 0]),
                               (21, end_frame), (22, Bytes [255, 63, 1, 224])]"
    and p22: "phase_of s 22 = Streaming [[255, 127, 0, 0]]"
    using demo_run by blast
  have cs: "callers s = [21, 21, 21, 22]" by (simp add: callers_def fr)
  from synthesis_calls_not_interleaved [OF s]
  have fifo: "\<forall>xs a ys b zs. arrived s = xs @ a # ys @ b # zs \<and> phase_of s b \<noteq> NotStarted
            \<longrightarrow> phase_of s a = Done"
    and ni: "not_interleaved (callers s)"
    by blast+
  have "arrived s = [] @ 21 # [] @ 22 # []" by (simp add: ar)
  moreover have "phase_of s 22 \<noteq> NotStarted" by (simp add: p22)
  ultimately have first_done: "phase_of s 21 = Done" using fifo by blast
  have refused: "run demo_gen [Enqueue 21, Enqueue 22, Dequeue, Acquire 21, SendChunk 21, Dequeue]
       idle_session = None"
    by (simp add: idle_session_def demo_gen_def)
  from s ar fr ni first_done refused show ?thesis by (simp add: cs)
qed

text \<open>
  The interleaved model agrees with \<open>stream_audio\<close> where both speak: a call that
  runs through without a failure and without a close puts the generator's chunks, in
  order, and then one end marker on the transport.
\<close>

lemma send_all_chunks:
  assumes "phase_of s r = Streaming cs" and "stream_active s"
  shows "run gen (replicate (length cs) (SendChunk r) @ rest) s
         = run gen rest (s\<lparr>sent_frames := sent_frames s @ map (\<lambda>c. (r, Bytes c)) cs,
                             phase_of := (phase_of s)(r := Streaming [])\<rparr>)"
  using assms
proof (induction cs arbitrary: s)
  case Nil
  then have "(phase_of s)(r := Streaming []) = phase_of s" by (simp add: fun_upd_idem)
  then show ?case by simp
next
  case (Cons c cs)
  let ?s1 = "s\<lparr>sent_frames := sent_frames s @ [(r, Bytes c)],
                 phase_of := (phase_of s)(r := Streaming cs)\<rparr>"
  have step: "exec gen (SendChunk r) s = Some ?s1" using Cons.prems by simp
  have "run gen (replicate (length (c # cs)) (SendChunk r) @ rest) s
      = run gen (replicate (length cs) (SendChunk r) @ rest) ?s1"
    using step by simp
  also have "\<dots> = run gen rest (?s1\<lparr>sent_frames := sent_frames ?s1 @ map (\<lambda>c. (r, Bytes c)) cs,
                                      phase_of := (phase_of ?s1)(r := Streaming [])\<rparr>)"
    using Cons.prems by (intro Cons.IH) simp_all
  also have "?s1\<lparr>sent_frames := sent_frames ?s1 @ map (\<lambda>c. (r, Bytes c)) cs,
                   phase_of := (phase_of ?s1)(r := Streaming [])\<rparr>
      = s\<lparr>sent_frames := sent_frames s @ map (\<lambda>c. (r, Bytes c)) (c # cs),
            phase_of := (phase_of s)(r := Streaming [])\<rparr>"
    by simp
  finally show ?case .
qed

lemma uninterrupted_call:
  assumes "phase_of s r = Waiting" and "lock_holder s = None" and "stream_active s"
  shows "map_option sent_frames
           (run gen (Acquire r # replicate (length (gen r)) (SendChunk r)
                       @ [LeaveLoop r, EndMarker r]) s)
         = Some (sent_frames s @ map (Pair r) (map Bytes (gen r) @ [end_frame]))"
proof -
  let ?s1 = "s\<lparr>lock_holder := Some r, phase_of := (phase_of s)(r := Streaming (gen r))\<rparr>"
  have "exec gen (Acquire r) s = Some ?s1" using assms by simp
  then have "run gen (Acquire r # replicate (length (gen r)) (SendChunk r)
                       @ [LeaveLoop r, EndMarker r]) s
      = run gen (replicate (length (gen r)) (SendChunk r) @ [LeaveLoop r, EndMarker r]) ?s1"
    by simp
  also have "\<dots> = run gen [LeaveLoop r, EndMarker r]
      (?s1\<lparr>sent_frames := sent_frames ?s1 @ map (\<lambda>c. (r, Bytes c)) (gen r),
            phase_of := (phase_of ?s1)(r := Streaming [])\<rparr>)"
    using assms by (intro send_all_chunks) simp_all
  finally show ?thesis using assms by (simp add: comp_def)
qed

section \<open>Further properties\<close>

lemma dict_set_length: "length (dict_set k v d) \<le> Suc (length d)"
  by (simp add: dict_set_def)

lemma create_stream_count:
  "active_streams (snd (create_stream r w)) \<le> active_streams w + 1"
  by (simp add: create_stream_def new_audio_stream_def stream_initialize_def set_stream_def
      set_socket_def active_streams_def Let_def dict_set_def split: sum.splits)

lemma connect_count:
  assumes "active_streams w \<le> MAX_CONNECTIONS (the_settings ev)"
  shows "active_streams (snd (connect ev r w)) \<le> MAX_CONNECTIONS (the_settings ev)"
proof (cases "active_streams w \<ge> MAX_CONNECTIONS (the_settings ev)")
  case True
  then show ?thesis using assms by (simp add: connect_def validate_connection_limit_def)
next
  case False
  have "active_streams (snd (connect ev r w)) = active_streams (snd (create_stream r w))"
    using False
    by (simp add: connect_def validate_connection_limit_def active_streams_def Let_def
        split: prod.splits sum.splits)
  then show ?thesis using create_stream_count [of r w] False by simp
qed

text \<open>
  Admissions through \<open>connect\<close>, one after the other, keep the registry within the
  limit, and an admission at the limit is refused and changes nothing.
\<close>

theorem connect_respects_limit:
  assumes "active_streams w \<le> MAX_CONNECTIONS (the_settings ev)"
  shows "active_streams (connect_all ev rs w) \<le> MAX_CONNECTIONS (the_settings ev)
       \<and> (active_streams w = MAX_CONNECTIONS (the_settings ev) \<longrightarrow>
            connect ev r w
              = (Inl (Exc WebSocketError ''Failed to establish WebSocket connection''), w))"
proof -
  have "active_streams (connect_all ev rs w) \<le> MAX_CONNECTIONS (the_settings ev)"
    using assms
  proof (induction rs arbitrary: w)
    case Nil
    then show ?case by simp
  next
    case (Cons r rs)
    have "active_streams (snd (connect ev r w)) \<le> MAX_CONNECTIONS (the_settings ev)"
      by (rule connect_count [OF Cons.prems])
    then show ?case using Cons.IH by simp
  qed
  then show ?thesis by (simp add: connect_def validate_connection_limit_def)
qed

theorem connect_respects_limit_witness:
  "active_streams empty_world \<le> MAX_CONNECTIONS (the_settings demo_env)
   \<and> active_streams (connect_all demo_env [0, 2, 3] empty_world) = 1
   \<and> sm_streams (connect_all demo_env [0, 2, 3] empty_world) = [(10, 10)]"
proof -
  have le: "active_streams empty_world \<le> MAX_CONNECTIONS (the_settings demo_env)"
    by (simp add: active_streams_def empty_world_def demo_env_def demo_settings_def)
  have reg: "sm_streams (connect_all demo_env [0, 2, 3] empty_world) = [(10, 10)]"
    by (simp add: connect_def validate_connection_limit_def active_streams_def create_stream_def
        new_audio_stream_def stream_initialize_def set_stream_def set_socket_def socket_of_def
        ws_accept_if fresh_socket_def dict_set_def empty_world_def demo_env_def
        demo_settings_def Let_def)
  have "active_streams (connect_all demo_env [0, 2, 3] empty_world) \<le> 1"
    using connect_respects_limit [OF le, of "[0, 2, 3]"]
    by (simp add: demo_env_def demo_settings_def)
  with le reg show ?thesis by (simp add: active_streams_def)
qed

text \<open>
  A frame that is valid JSON but not an object (a list, a string, a number) has no
  \<^verbatim>\<open>get\<close>: the handler answers with one error message that carries the text of the
  AttributeError, and goes on.
\<close>

theorem non_object_frame_one_error:
  assumes "application_state (sockets w (h_websocket h)) = CONNECTED"
    and "\<forall>kvs. message \<noteq> JDict kvs"
  shows "handle_message ev message h w
         = (h, deliver (h_websocket h) [message_frame ''error'' ''object has no attribute get''] w)"
  using assms
  by (cases message)
    (simp_all add: handle_message_def send_error_def send_json_quietly_connected)

theorem non_object_frame_one_error_witness:
  "application_state (sockets demo_world (h_websocket demo_handler)) = CONNECTED
   \<and> handle_message demo_env (JList [JNum 1]) demo_handler demo_world
     = (demo_handler,
        deliver 0 [message_frame ''error'' ''object has no attribute get''] demo_world)"
proof -
  have "\<forall>kvs. JList [JNum 1] \<noteq> JDict kvs" by simp
  from non_object_frame_one_error [OF demo_connected this, of demo_env] demo_connected
  show ?thesis by (simp add: demo_handler_def)
qed

end
